theory Spec2Isabelle
  imports Main "HOL-Library.Word" "HOL-Library.Sublist"
begin

unbundle bit_operations_syntax

section \<open>Data model of the firmware (src/src/main.cpp)\<close>

text \<open>
  The firmware is one translation unit of file-scope variables mutated by a fixed sequence
  of non-blocking engines. The model passes one record of all those variables explicitly.
  Wire data and durations keep their C widths; \<open>unsigned long\<close> is 32 bits on the ESP32,
  so every \<open>millis()\<close> sum wraps modulo \<open>2 ^ 32\<close>. The \<open>uint8_t\<close> counters and ring
  indices are natural numbers: each of their updates is guarded or reduced modulo
  \<open>QSIZE\<close> in the source, so none of them can exceed 255.
\<close>

type_synonym u8 = "8 word"
type_synonym u16 = "16 word"
type_synonym u32 = "32 word"
type_synonym u64 = "64 word"

text \<open>Sender of a datagram: \<open>udp.remoteIP()\<close> and \<open>udp.remotePort()\<close>.\<close>

type_synonym endpoint = "u32 \<times> u16"

record datagram =
  d_from :: endpoint
  d_data :: "u8 list"

text \<open>
  \<open>enum class ActionType : uint8_t { Press = 1, Delay = 2 }\<close>. The slots of the static
  array \<open>q\<close> are zero-initialised, a value that is neither enumerator: \<open>Unset\<close>.
\<close>

datatype ActionType = Unset | Press | Delay

record Action =
  atype :: ActionType
  arg :: u16

record Rc5Entry =
  bits :: u16
  v_t0 :: u64
  v_t1 :: u64

text \<open>
  What the firmware hands to its collaborators, in program order: a datagram written to the
  UDP socket, a code given to \<open>irsend.sendRC5\<close>, and the calls into ArduinoOTA and WiFi.
  The two GPIO outputs are kept as levels in the state.
\<close>

datatype event =
    UdpSend endpoint "u8 list"
  | IrSendRC5 u64 u16
  | OtaBegin
  | OtaHandle
  | WifiReconnect

record fw_state =
  otaEnabled :: bool
  otaInitialized :: bool
  otaUntilMs :: u32
  ledInBurst :: bool
  ledLevel :: bool
  ledNextMs :: u32
  ledTogglesLeft :: nat
  sirenActive :: bool
  sirenCount :: nat
  sirenOnMs :: "u16 list"
  sirenOffMs :: "u16 list"
  sirenIndex :: nat
  sirenPhaseOn :: bool
  sirenNextMs :: u32
  rc5_toggle_state :: u8
  q :: "Action list"
  qHead :: nat
  qTail :: nat
  qCount :: nat
  delayUntilMs :: u32
  lastId :: u16
  lastIdValid :: bool
  lastAckStatus :: u8
  nextWifiRetryMs :: u32
  pinStatusLed :: bool
  pinSiren :: bool
  trace :: "event list"

subsection \<open>Constants\<close>

definition MAGIC :: u8 where "MAGIC = 0xA5"
definition VER :: u8 where "VER = 0x01"
definition CMD_ACK :: u8 where "CMD_ACK = 0x7F"
definition CMD_MODE_SWITCH :: u8 where "CMD_MODE_SWITCH = 0x40"
definition CMD_RESET_SCOREBOARD :: u8 where "CMD_RESET_SCOREBOARD = 0x41"
definition CMD_SIREN :: u8 where "CMD_SIREN = 0x60"
definition CMD_OTA_MODE :: u8 where "CMD_OTA_MODE = 0x70"
definition IR_GAP_MS_DEFAULT :: u16 where "IR_GAP_MS_DEFAULT = 100"
definition IR_GAP_MS_EXIT3_END :: u16 where "IR_GAP_MS_EXIT3_END = 500"
definition OTA_WINDOW_MS :: u32 where "OTA_WINDOW_MS = 180000"
definition ACTIVITY_BLINK_ON_MS :: u32 where "ACTIVITY_BLINK_ON_MS = 70"
definition ACTIVITY_BLINK_OFF_MS :: u32 where "ACTIVITY_BLINK_OFF_MS = 70"
definition ACTIVITY_BLINK_COUNT :: nat where "ACTIVITY_BLINK_COUNT = 4"
definition SIREN_ACTIVE_HIGH :: bool where "SIREN_ACTIVE_HIGH = True"
definition RC5_TOGGLE_MASK_12BIT :: u64 where "RC5_TOGGLE_MASK_12BIT = 0x800"
definition QSIZE :: nat where "QSIZE = 32"
definition IDX_EXIT :: nat where "IDX_EXIT = 2"
definition IDX_8 :: nat where "IDX_8 = 23"
definition IDX_9 :: nat where "IDX_9 = 24"
definition WIFI_RETRY_INTERVAL_MS :: u32 where "WIFI_RETRY_INTERVAL_MS = 3000"
definition BUF_SIZE :: nat where "BUF_SIZE = 128"

text \<open>
  One row of \<open>RC5_TABLE\<close>: \<open>{12, (base & ~MASK), (base | MASK)}\<close>, and the 27 base codes
  in the order of the source.
\<close>

definition rc5_row :: "u64 \<Rightarrow> Rc5Entry" where
  "rc5_row base = \<lparr>bits = 12, v_t0 = base AND NOT RC5_TOGGLE_MASK_12BIT,
                   v_t1 = base OR RC5_TOGGLE_MASK_12BIT\<rparr>"

definition RC5_TABLE :: "Rc5Entry list" where
  "RC5_TABLE = map rc5_row
     [0x8CA, 0x0CB, 0x80C, 0x02F, 0x838, 0x021, 0x820, 0x022, 0x0E6,
      0x80D, 0x011, 0x810, 0x02B, 0x800, 0x801, 0x002, 0x803, 0x02E,
      0x804, 0x005, 0x806, 0x02C, 0x807, 0x008, 0x809, 0x029, 0x80F]"

subsection \<open>Status LED\<close>

definition statusLedWrite :: "bool \<Rightarrow> fw_state \<Rightarrow> fw_state" where
  "statusLedWrite on s = s\<lparr>pinStatusLed := on\<rparr>"

definition statusLedSetBase :: "bool \<Rightarrow> fw_state \<Rightarrow> fw_state" where
  "statusLedSetBase wifi s = (statusLedWrite wifi s)\<lparr>ledLevel := wifi\<rparr>"

definition statusLedActivityBurst :: "u32 \<Rightarrow> fw_state \<Rightarrow> fw_state" where
  "statusLedActivityBurst now s =
     (statusLedWrite False (s\<lparr>ledInBurst := True, ledTogglesLeft := ACTIVITY_BLINK_COUNT * 2\<rparr>))
       \<lparr>ledLevel := False, ledNextMs := now + ACTIVITY_BLINK_OFF_MS\<rparr>"

definition statusLedTick :: "u32 \<Rightarrow> bool \<Rightarrow> fw_state \<Rightarrow> fw_state" where
  "statusLedTick now wifi s =
     (if \<not> ledInBurst s then statusLedSetBase wifi s
      else if now < ledNextMs s then s
      else
        let s1 = (statusLedWrite (\<not> ledLevel s) s)\<lparr>ledLevel := \<not> ledLevel s\<rparr>;
            s2 = (if ledTogglesLeft s1 > 0 then s1\<lparr>ledTogglesLeft := ledTogglesLeft s1 - 1\<rparr> else s1)
        in if ledTogglesLeft s2 = 0 then statusLedSetBase wifi (s2\<lparr>ledInBurst := False\<rparr>)
           else s2\<lparr>ledNextMs := now + (if ledLevel s2 then ACTIVITY_BLINK_ON_MS
                                         else ACTIVITY_BLINK_OFF_MS)\<rparr>)"

subsection \<open>Siren engine\<close>

definition sirenWrite :: "bool \<Rightarrow> fw_state \<Rightarrow> fw_state" where
  "sirenWrite on s = s\<lparr>pinSiren := (if SIREN_ACTIVE_HIGH then on else \<not> on)\<rparr>"

definition sirenStop :: "fw_state \<Rightarrow> fw_state" where
  "sirenStop s =
     sirenWrite False
       (s\<lparr>sirenActive := False, sirenCount := 0, sirenIndex := 0,
          sirenPhaseOn := False, sirenNextMs := 0\<rparr>)"

definition sirenStart :: "u32 \<Rightarrow> nat \<Rightarrow> u16 list \<Rightarrow> u16 list \<Rightarrow> fw_state \<Rightarrow> fw_state" where
  "sirenStart now count onArr offArr s =
     (let s1 = s\<lparr>sirenCount := count,
                 sirenOnMs := map (\<lambda>i. if i < count then onArr ! i else 0) [0..<5],
                 sirenOffMs := map (\<lambda>i. if i < count then offArr ! i else 0) [0..<5],
                 sirenIndex := 0, sirenPhaseOn := True, sirenActive := True\<rparr>;
          s2 = sirenWrite True s1
      in s2\<lparr>sirenNextMs := now + ucast (sirenOnMs s2 ! 0)\<rparr>)"

definition sirenTick :: "u32 \<Rightarrow> fw_state \<Rightarrow> fw_state" where
  "sirenTick now s =
     (if \<not> sirenActive s then s
      else if now < sirenNextMs s then s
      else if sirenPhaseOn s then
        (sirenWrite False s)\<lparr>sirenPhaseOn := False,
                              sirenNextMs := now + ucast (sirenOffMs s ! sirenIndex s)\<rparr>
      else if sirenIndex s + 1 \<ge> sirenCount s then sirenStop s
      else
        let s1 = sirenWrite True (s\<lparr>sirenIndex := sirenIndex s + 1, sirenPhaseOn := True\<rparr>)
        in s1\<lparr>sirenNextMs := now + ucast (sirenOnMs s1 ! sirenIndex s1)\<rparr>)"

subsection \<open>RC5 encoder\<close>

definition readU16LE :: "u8 \<Rightarrow> u8 \<Rightarrow> u16" where
  "readU16LE p0 p1 = ucast p0 OR push_bit 8 (ucast p1)"

definition writeU16LE :: "u16 \<Rightarrow> u8 list" where
  "writeU16LE v = [ucast (v AND 0xFF), ucast (drop_bit 8 v)]"

definition sendRc5Press :: "u32 \<Rightarrow> nat \<Rightarrow> fw_state \<Rightarrow> fw_state" where
  "sendRc5Press now idx s =
     (let s1 = s\<lparr>rc5_toggle_state := rc5_toggle_state s XOR 1\<rparr>;
          v = (if rc5_toggle_state s1 = 0 then v_t0 (RC5_TABLE ! idx) else v_t1 (RC5_TABLE ! idx));
          s2 = s1\<lparr>trace := trace s1 @ [IrSendRC5 v (bits (RC5_TABLE ! idx))]\<rparr>
      in statusLedActivityBurst now s2)"

subsection \<open>Action queue\<close>

definition qPush :: "Action \<Rightarrow> fw_state \<Rightarrow> bool \<times> fw_state" where
  "qPush a s =
     (if qCount s \<ge> QSIZE then (False, s)
      else (True, s\<lparr>q := (q s)[qTail s := a],
                    qTail := (qTail s + 1) mod QSIZE,
                    qCount := qCount s + 1\<rparr>))"

definition qPop :: "fw_state \<Rightarrow> (Action \<times> fw_state) option" where
  "qPop s =
     (if qCount s = 0 then None
      else Some (q s ! qHead s,
                 s\<lparr>qHead := (qHead s + 1) mod QSIZE, qCount := qCount s - 1\<rparr>))"

definition queuePress :: "nat \<Rightarrow> fw_state \<Rightarrow> fw_state" where
  "queuePress idx s = snd (qPush \<lparr>atype = Press, arg = of_nat idx\<rparr> s)"

definition queueDelay :: "u16 \<Rightarrow> fw_state \<Rightarrow> fw_state" where
  "queueDelay ms s = snd (qPush \<lparr>atype = Delay, arg = ms\<rparr> s)"

definition queueMacroModeSwitch :: "fw_state \<Rightarrow> fw_state" where
  "queueMacroModeSwitch s =
     queueDelay IR_GAP_MS_EXIT3_END
       (queuePress IDX_EXIT
         (queueDelay IR_GAP_MS_DEFAULT
           (queuePress IDX_EXIT
             (queueDelay IR_GAP_MS_DEFAULT
               (queuePress IDX_EXIT s)))))"

definition queueMacroResetScoreboard :: "fw_state \<Rightarrow> fw_state" where
  "queueMacroResetScoreboard s =
     queuePress IDX_8
       (queueDelay IR_GAP_MS_DEFAULT
         (queuePress IDX_8
           (queueDelay IR_GAP_MS_DEFAULT
             (queuePress IDX_8
               (queueDelay IR_GAP_MS_DEFAULT
                 (queuePress IDX_9 s))))))"

subsection \<open>Acknowledgement\<close>

definition ackBytes :: "u16 \<Rightarrow> u8 \<Rightarrow> u8 list" where
  "ackBytes ident status = [MAGIC, VER, CMD_ACK] @ writeU16LE ident @ [status, 0]"

definition sendAck :: "endpoint \<Rightarrow> u16 \<Rightarrow> u8 \<Rightarrow> fw_state \<Rightarrow> fw_state" where
  "sendAck ep ident status s = s\<lparr>trace := trace s @ [UdpSend ep (ackBytes ident status)]\<rparr>"

subsection \<open>Maintenance (OTA) gate\<close>

definition otaInitOnce :: "fw_state \<Rightarrow> fw_state" where
  "otaInitOnce s =
     (if otaInitialized s then s
      else s\<lparr>trace := trace s @ [OtaBegin], otaInitialized := True\<rparr>)"

definition otaEnterOrExtendWindow :: "u32 \<Rightarrow> fw_state \<Rightarrow> fw_state" where
  "otaEnterOrExtendWindow now s =
     statusLedActivityBurst now
       ((otaInitOnce s)\<lparr>otaEnabled := True, otaUntilMs := now + OTA_WINDOW_MS\<rparr>)"

definition otaTick :: "u32 \<Rightarrow> bool \<Rightarrow> fw_state \<Rightarrow> fw_state" where
  "otaTick now wifi s =
     (if \<not> otaEnabled s then s
      else if \<not> wifi then s
      else if now \<ge> otaUntilMs s then s\<lparr>otaEnabled := False\<rparr>
      else s\<lparr>trace := trace s @ [OtaHandle]\<rparr>)"

subsection \<open>Command dispatcher\<close>

text \<open>
  \<open>payload\<close> is the byte sequence the pointer argument points at and \<open>payloadLen\<close> the
  separate length argument; the source reads \<open>payload[i]\<close> only for \<open>i < payloadLen\<close>.
\<close>

definition enqueueCommand :: "u32 \<Rightarrow> u8 \<Rightarrow> u8 list \<Rightarrow> u8 \<Rightarrow> fw_state \<Rightarrow> bool \<times> fw_state" where
  "enqueueCommand now cmd payload payloadLen s =
     (if otaEnabled s then
        (if cmd = CMD_OTA_MODE then
           (if payloadLen \<noteq> 0 then (False, s) else (True, otaEnterOrExtendWindow now s))
         else (False, s))
      else if cmd = CMD_OTA_MODE then
        (if payloadLen \<noteq> 0 then (False, s) else (True, otaEnterOrExtendWindow now s))
      else if cmd \<ge> 0x01 \<and> cmd \<le> 0x1B then
        (let idx = cmd - 1 in
         if idx \<ge> 27 then (False, s)
         else qPush \<lparr>atype = Press, arg = ucast idx\<rparr> s)
      else if cmd = CMD_MODE_SWITCH then
        (if qCount s > QSIZE - 6 then (False, s) else (True, queueMacroModeSwitch s))
      else if cmd = CMD_RESET_SCOREBOARD then
        (if qCount s > QSIZE - 6 then (False, s) else (True, queueMacroResetScoreboard s))
      else if cmd = CMD_SIREN then
        (if payloadLen < 1 then (False, s)
         else
           let count = payload ! 0 in
           if count < 1 \<or> count > 3 then (False, s)
           else
             let need = 1 + count * 4 in
             if payloadLen < need then (False, s)
             else
               let onArr = map (\<lambda>i. if i < unat count
                                     then readU16LE (payload ! (1 + 4 * i)) (payload ! (2 + 4 * i))
                                     else 0) [0..<5];
                   offArr = map (\<lambda>i. if i < unat count
                                      then readU16LE (payload ! (3 + 4 * i)) (payload ! (4 + 4 * i))
                                      else 0) [0..<5]
               in (True, sirenStart now (unat count) onArr offArr s))
      else (False, s))"

subsection \<open>UDP intake\<close>

text \<open>
  One iteration of the body of the \<open>while\<close> loop of \<open>processUdp\<close>, for one pending
  datagram. \<open>udp.read(buf, sizeof(buf))\<close> copies at most \<open>BUF_SIZE\<close> bytes and returns how
  many it copied, so \<open>len\<close> is the length of the copied prefix, not of the datagram.
\<close>

definition processDatagram :: "u32 \<Rightarrow> datagram \<Rightarrow> fw_state \<Rightarrow> fw_state" where
  "processDatagram now d s =
     (let buf = take BUF_SIZE (d_data d); len = length buf in
      if len < 6 then s
      else if buf ! 0 \<noteq> MAGIC then s
      else if buf ! 1 \<noteq> VER then s
      else
        let cmd = buf ! 2; ident = readU16LE (buf ! 3) (buf ! 4); plen = buf ! 5 in
        if 6 + unat plen \<noteq> len then
          sendAck (d_from d) ident 0 (s\<lparr>lastId := ident, lastIdValid := True, lastAckStatus := 0\<rparr>)
        else if lastIdValid s \<and> ident = lastId s then
          sendAck (d_from d) ident (lastAckStatus s) s
        else
          let payload = drop 6 buf;
              (ok, s1) = enqueueCommand now cmd payload plen s;
              s2 = s1\<lparr>lastId := ident, lastIdValid := True,
                      lastAckStatus := (if ok then 1 else 0)\<rparr>;
              s3 = (if ok then statusLedActivityBurst now s2 else s2)
          in sendAck (d_from d) ident (lastAckStatus s3) s3)"

text \<open>
  The loop runs while \<open>udp.parsePacket()\<close> returns a positive size: it ends when no
  datagram is pending, and also at an empty datagram.
\<close>

fun processUdp :: "u32 \<Rightarrow> datagram list \<Rightarrow> fw_state \<Rightarrow> fw_state" where
  "processUdp now [] s = s"
| "processUdp now (d # ds) s =
     (if length (d_data d) > 0 then processUdp now ds (processDatagram now d s) else s)"

subsection \<open>Action executor\<close>

definition actionTick :: "u32 \<Rightarrow> fw_state \<Rightarrow> fw_state" where
  "actionTick now s =
     (if delayUntilMs s \<noteq> 0 \<and> now < delayUntilMs s then s
      else
        let s1 = s\<lparr>delayUntilMs := 0\<rparr> in
        if qCount s1 = 0 then s1
        else
          case qPop s1 of
            None \<Rightarrow> s1
          | Some (a, s2) \<Rightarrow>
              (case atype a of
                 Delay \<Rightarrow> s2\<lparr>delayUntilMs := now + ucast (arg a)\<rparr>
               | Press \<Rightarrow>
                   (let idx = (ucast (arg a AND 0xFF) :: u8) in
                    if idx < 27 then sendRc5Press now (unat idx) s2 else s2)
               | Unset \<Rightarrow> s2))"

subsection \<open>Link retry, boot state and main loop\<close>

definition wifiTick :: "u32 \<Rightarrow> bool \<Rightarrow> fw_state \<Rightarrow> fw_state" where
  "wifiTick now wifi s =
     (if wifi then s
      else if now < nextWifiRetryMs s then s
      else s\<lparr>nextWifiRetryMs := now + WIFI_RETRY_INTERVAL_MS,
             trace := trace s @ [WifiReconnect]\<rparr>)"

text \<open>The initialisers of the file-scope variables, after \<open>setup()\<close> has driven both pins low.\<close>

definition boot :: fw_state where
  "boot = \<lparr>otaEnabled = False, otaInitialized = False, otaUntilMs = 0,
           ledInBurst = False, ledLevel = False, ledNextMs = 0, ledTogglesLeft = 0,
           sirenActive = False, sirenCount = 0,
           sirenOnMs = [0, 0, 0, 0, 0], sirenOffMs = [0, 0, 0, 0, 0],
           sirenIndex = 0, sirenPhaseOn = False, sirenNextMs = 0,
           rc5_toggle_state = 0,
           q = replicate 32 \<lparr>atype = Unset, arg = 0\<rparr>, qHead = 0, qTail = 0, qCount = 0,
           delayUntilMs = 0,
           lastId = 0, lastIdValid = False, lastAckStatus = 0,
           nextWifiRetryMs = 0,
           pinStatusLed = False, pinSiren = False,
           trace = []\<rparr>"

text \<open>
  One pass of \<open>loop()\<close>. The clock reading, the link state and the datagrams pending at the
  socket are the inputs of the pass; the model reads the clock and the link once per pass.
\<close>

record tick_input =
  t_now :: u32
  t_wifi :: bool
  t_inbox :: "datagram list"

definition loop :: "tick_input \<Rightarrow> fw_state \<Rightarrow> fw_state" where
  "loop i s =
     (let s1 = statusLedTick (t_now i) (t_wifi i) s;
          s2 = wifiTick (t_now i) (t_wifi i) s1;
          s3 = (if t_wifi i then processUdp (t_now i) (t_inbox i) s2 else s2);
          s4 = otaTick (t_now i) (t_wifi i) s3;
          s5 = actionTick (t_now i) s4
      in sirenTick (t_now i) s5)"

fun run :: "tick_input list \<Rightarrow> fw_state \<Rightarrow> fw_state" where
  "run [] s = s"
| "run (i # is) s = run is (loop i s)"

section \<open>Abstractions used by the statements\<close>

text \<open>
  The FIFO content of the ring buffer, oldest first: the \<open>qCount\<close> slots from \<open>qHead\<close>
  on, which is the order in which \<open>qPop\<close> hands them out. The ring is well formed when its
  three indices agree; \<open>qPush\<close> and \<open>qPop\<close> keep it so.
\<close>

definition queue_contents :: "fw_state \<Rightarrow> Action list" where
  "queue_contents s = map (\<lambda>i. q s ! ((qHead s + i) mod QSIZE)) [0..<qCount s]"

definition q_wf :: "fw_state \<Rightarrow> bool" where
  "q_wf s = (length (q s) = QSIZE \<and> qHead s < QSIZE \<and> qCount s \<le> QSIZE \<and>
             qTail s = (qHead s + qCount s) mod QSIZE)"

text \<open>The codes handed to the infrared transmitter, in order, and the event kinds.\<close>

fun is_ir :: "event \<Rightarrow> bool" where
  "is_ir (IrSendRC5 v n) = True"
| "is_ir e = False"

fun is_ack :: "event \<Rightarrow> bool" where
  "is_ack (UdpSend ep bs) = True"
| "is_ack e = False"

fun ir_codes :: "event list \<Rightarrow> u64 list" where
  "ir_codes [] = []"
| "ir_codes (IrSendRC5 v n # es) = v # ir_codes es"
| "ir_codes (e # es) = ir_codes es"

text \<open>The toggle bit of an emitted 12-bit code.\<close>

definition toggle_bit :: "u64 \<Rightarrow> bool" where
  "toggle_bit v = (v AND RC5_TOGGLE_MASK_12BIT \<noteq> 0)"

text \<open>A well-framed datagram: six header bytes and the payload.\<close>

definition frame :: "endpoint \<Rightarrow> u8 \<Rightarrow> u16 \<Rightarrow> u8 \<Rightarrow> u8 list \<Rightarrow> datagram" where
  "frame ep cmd ident plen payload =
     \<lparr>d_from = ep, d_data = [MAGIC, VER, cmd] @ writeU16LE ident @ [plen] @ payload\<rparr>"

text \<open>The siren engine ticked at a sequence of clock readings.\<close>

definition siren_run :: "u32 list \<Rightarrow> fw_state \<Rightarrow> fw_state" where
  "siren_run ts s = fold sirenTick ts s"

subsection \<open>Example states and inputs\<close>

text \<open>
  The gate as a maintenance command received at clock 1000 leaves it, and a later pass of
  the main loop at clock 200000 during which the link is down.
\<close>

definition gate_demo :: fw_state where
  "gate_demo = run [\<lparr>t_now = 1000, t_wifi = True, t_inbox = [frame (1, 2) CMD_OTA_MODE 1 0 []]\<rparr>] boot"

definition link_down_tick :: tick_input where
  "link_down_tick = \<lparr>t_now = 200000, t_wifi = False, t_inbox = []\<rparr>"

text \<open>The boot state with the gate already open.\<close>

definition gate_open_boot :: fw_state where
  "gate_open_boot = boot\<lparr>otaEnabled := True\<rparr>"

text \<open>The queue after 26 single-press commands have been accepted since boot.\<close>

definition queue26 :: fw_state where
  "queue26 = fold (\<lambda>c s. snd (enqueueCommand 0 c [] 0 s)) (replicate 26 0x01) boot"

text \<open>The datagrams written to the socket, in order.\<close>

fun sent :: "event list \<Rightarrow> (endpoint \<times> u8 list) list" where
  "sent [] = []"
| "sent (UdpSend ep bs # es) = (ep, bs) # sent es"
| "sent (e # es) = sent es"

text \<open>
  The state after the first reception, at boot, of the frame of the specification's example
  (press command \<open>0x05\<close>, request id \<open>0x002A\<close>, empty payload).
\<close>

definition example_frame :: datagram where
  "example_frame = frame (1, 2) 0x05 0x2A 0 []"


text \<open>
  A datagram of 200 bytes whose header declares a payload of 122 bytes: magic, version,
  press command \<open>0x05\<close>, request id \<open>0x002A\<close>, length byte 122, then 194 further bytes.
\<close>

definition oversize_frame :: datagram where
  "oversize_frame = frame (1, 2) 0x05 0x2A 122 (replicate 194 0)"

text \<open>
  The toggle invariant: the stored toggle equals the parity of the number of codes emitted
  so far, and the toggle bit of the \<open>k\<close>-th emitted code (counting from 0) is set exactly
  when \<open>k\<close> is even.
\<close>

definition toggle_inv :: "fw_state \<Rightarrow> bool" where
  "toggle_inv s =
     (rc5_toggle_state s = (if even (length (ir_codes (trace s))) then 0 else 1) \<and>
      list_all (\<lambda>k. toggle_bit (ir_codes (trace s) ! k) = even k) [0..<length (ir_codes (trace s))])"

text \<open>Two passes of the main loop, each receiving one single-press frame.\<close>

definition two_presses :: "tick_input list" where
  "two_presses =
     [\<lparr>t_now = 0, t_wifi = True, t_inbox = [frame (1, 2) 0x05 0x2A 0 []]\<rparr>,
      \<lparr>t_now = 500, t_wifi = True, t_inbox = [frame (1, 2) 0x01 0x2B 0 []]\<rparr>]"

text \<open>
  The siren command of the specification's example: count 2, on-durations 200 and 300 ms,
  off-durations 100 and 150 ms, little-endian; and the state reached when that command is
  dispatched at clock \<open>t0\<close> in state \<open>s\<close> and the siren engine is then ticked at the clock
  readings \<open>t0 + k\<close> for the elapsed milliseconds \<open>k\<close> of a list.
\<close>

definition siren_payload :: "u8 list" where
  "siren_payload = [2, 0xC8, 0x00, 0x64, 0x00, 0x2C, 0x01, 0x96, 0x00]"

definition siren_after :: "u32 \<Rightarrow> fw_state \<Rightarrow> nat list \<Rightarrow> fw_state" where
  "siren_after t0 s ks =
     siren_run (map (\<lambda>k. t0 + of_nat k) ks) (snd (enqueueCommand t0 CMD_SIREN siren_payload 9 s))"

text \<open>The example train interrupted in its first off phase, 200 ms after its start.\<close>

definition siren_mid :: fw_state where
  "siren_mid = siren_after 1000 boot [0, 100, 200]"


definition long_press_frame :: datagram where
  "long_press_frame = frame (1, 2) 0x05 0x2B 123 (replicate 123 0)"

definition mode_entry_frame :: "datagram \<Rightarrow> bool" where
  "mode_entry_frame d =
     (length (d_data d) = 6 \<and> d_data d ! 0 = MAGIC \<and> d_data d ! 1 = VER \<and>
      d_data d ! 2 = CMD_OTA_MODE \<and> d_data d ! 5 = 0)"

definition link_up_tick :: tick_input where
  "link_up_tick = \<lparr>t_now = 200000, t_wifi = True, t_inbox = [example_frame]\<rparr>"

definition rearm_tick :: tick_input where
  "rearm_tick = \<lparr>t_now = 200000, t_wifi = True, t_inbox = [frame (1, 2) CMD_OTA_MODE 2 0 []]\<rparr>"

section \<open>The ring buffer\<close>

lemma ring_distinct:
  assumes "i < c" "c < (32::nat)"
  shows "(h + i) mod 32 \<noteq> (h + c) mod 32"
proof
  assume e: "(h + i) mod 32 = (h + c) mod 32"
  have "h + i \<le> h + c" using assms by simp
  then have "32 dvd (h + c) - (h + i)"
    using e mod_eq_dvd_iff_nat [of "h + i" "h + c" 32] by simp
  then have "32 dvd c - i" by simp
  then show False using assms by (auto dest: dvd_imp_le)
qed

lemma ring_distinct_sym:
  "i < c \<Longrightarrow> c < (32::nat) \<Longrightarrow> (h + c) mod 32 = (h + i) mod 32 \<Longrightarrow> False"
  using ring_distinct [of i c h] by simp

lemma qPush_contents:
  assumes "q_wf s" "qCount s < QSIZE"
  shows "fst (qPush a s)" "q_wf (snd (qPush a s))"
    "queue_contents (snd (qPush a s)) = queue_contents s @ [a]"
    "qCount (snd (qPush a s)) = qCount s + 1"
  using assms
  by (auto simp: qPush_def q_wf_def queue_contents_def QSIZE_def mod_Suc_eq
      nth_list_update mod_simps dest: ring_distinct_sym)

lemma qPush_full: "qCount s \<ge> QSIZE \<Longrightarrow> qPush a s = (False, s)"
  by (simp add: qPush_def)

lemma queuePress_contents:
  assumes "q_wf s" "qCount s < QSIZE"
  shows "q_wf (queuePress i s)"
    "queue_contents (queuePress i s) = queue_contents s @ [\<lparr>atype = Press, arg = of_nat i\<rparr>]"
    "qCount (queuePress i s) = qCount s + 1"
  using qPush_contents [OF assms] by (simp_all add: queuePress_def)

lemma queueDelay_contents:
  assumes "q_wf s" "qCount s < QSIZE"
  shows "q_wf (queueDelay ms s)"
    "queue_contents (queueDelay ms s) = queue_contents s @ [\<lparr>atype = Delay, arg = ms\<rparr>]"
    "qCount (queueDelay ms s) = qCount s + 1"
  using qPush_contents [OF assms] by (simp_all add: queueDelay_def)

lemma queueMacroModeSwitch_contents:
  assumes "q_wf s" "qCount s + 6 \<le> QSIZE"
  shows "q_wf (queueMacroModeSwitch s)"
    "queue_contents (queueMacroModeSwitch s) = queue_contents s @
       [\<lparr>atype = Press, arg = of_nat IDX_EXIT\<rparr>, \<lparr>atype = Delay, arg = IR_GAP_MS_DEFAULT\<rparr>,
        \<lparr>atype = Press, arg = of_nat IDX_EXIT\<rparr>, \<lparr>atype = Delay, arg = IR_GAP_MS_DEFAULT\<rparr>,
        \<lparr>atype = Press, arg = of_nat IDX_EXIT\<rparr>, \<lparr>atype = Delay, arg = IR_GAP_MS_EXIT3_END\<rparr>]"
    "qCount (queueMacroModeSwitch s) = qCount s + 6"
  using assms
  by (simp_all add: queueMacroModeSwitch_def queuePress_contents queueDelay_contents)

section \<open>Framing\<close>

lemma readU16LE_writeU16LE:
  "readU16LE (ucast (v AND 0xFF)) (ucast (drop_bit 8 v)) = v"
proof -
  have m: "(0xFF :: u16) = mask 8" by (simp add: mask_eq_exp_minus_1)
  show ?thesis
    unfolding readU16LE_def m
    by (rule bit_word_eqI) (auto simp: bit_simps)
qed

lemma take_frame_hdr:
  "take BUF_SIZE (d_data (frame ep cmd ident plen payload)) =
     MAGIC # VER # cmd # ucast (ident AND 0xFF) # ucast (drop_bit 8 ident) # plen # take 122 payload"
  by (simp add: frame_def writeU16LE_def BUF_SIZE_def)

text \<open>What the intake does with a frame that carries the right magic and version.\<close>

lemma processDatagram_frame:
  "processDatagram now (frame ep cmd ident plen payload) s =
     (if 6 + unat plen \<noteq> 6 + min (length payload) 122 then
        sendAck ep ident 0 (s\<lparr>lastId := ident, lastIdValid := True, lastAckStatus := 0\<rparr>)
      else if lastIdValid s \<and> ident = lastId s then sendAck ep ident (lastAckStatus s) s
      else
        let r = enqueueCommand now cmd (take 122 payload) plen s;
            s2 = (snd r)\<lparr>lastId := ident, lastIdValid := True,
                      lastAckStatus := (if fst r then 1 else 0)\<rparr>;
            s3 = (if fst r then statusLedActivityBurst now s2 else s2)
        in sendAck ep ident (if fst r then 1 else 0) s3)"
  unfolding processDatagram_def take_frame_hdr Let_def
  by (simp add: readU16LE_writeU16LE frame_def split_beta statusLedActivityBurst_def statusLedWrite_def)

section \<open>Maintenance gate\<close>

text \<open>
  Claim C5. While the maintenance gate is open, every command code other than the
  mode-entry command is refused by the dispatcher, which returns failure and the state it
  was given: nothing is enqueued, the siren engine and the gate deadline are untouched. A
  frame carrying such a command under a new request id is acknowledged with status 0, and
  only the dedup record changes. The mode-entry command with an empty payload succeeds and
  sets the deadline to the full window from now.
\<close>

theorem gate_open_dispatch:
  assumes "otaEnabled s"
  shows "(cmd \<noteq> CMD_OTA_MODE \<longrightarrow> enqueueCommand now cmd payload plen s = (False, s)) \<and>
         (cmd \<noteq> CMD_OTA_MODE \<and> \<not> (lastIdValid s \<and> ident = lastId s) \<longrightarrow>
            processDatagram now (frame ep cmd ident plen payload) s =
              sendAck ep ident 0 (s\<lparr>lastId := ident, lastIdValid := True, lastAckStatus := 0\<rparr>)) \<and>
         enqueueCommand now CMD_OTA_MODE payload 0 s = (True, otaEnterOrExtendWindow now s) \<and>
         otaEnabled (otaEnterOrExtendWindow now s) \<and>
         otaUntilMs (otaEnterOrExtendWindow now s) = now + OTA_WINDOW_MS"
  using assms
  by (simp add: enqueueCommand_def processDatagram_frame otaEnterOrExtendWindow_def
      statusLedActivityBurst_def statusLedWrite_def otaInitOnce_def)

theorem gate_open_dispatch_witness:
  "otaEnabled gate_open_boot \<and>
   enqueueCommand 7 0x05 [] 0 gate_open_boot = (False, gate_open_boot) \<and>
   processDatagram 7 (frame (1, 2) 0x05 0x2A 0 []) gate_open_boot =
     sendAck (1, 2) 0x2A 0 (gate_open_boot\<lparr>lastId := 0x2A, lastIdValid := True, lastAckStatus := 0\<rparr>) \<and>
   enqueueCommand 7 CMD_OTA_MODE [] 0 gate_open_boot = (True, otaEnterOrExtendWindow 7 gate_open_boot) \<and>
   otaUntilMs (otaEnterOrExtendWindow 7 gate_open_boot) = 7 + OTA_WINDOW_MS"
proof -
  have h: "otaEnabled gate_open_boot" by code_simp
  have c: "(0x05 :: u8) \<noteq> CMD_OTA_MODE" by code_simp
  have n: "\<not> (lastIdValid gate_open_boot \<and> (0x2A :: u16) = lastId gate_open_boot)" by code_simp
  from gate_open_dispatch [OF h, of "0x05" 7 "[]" 0 "0x2A" "(1, 2)"] h c n
  show ?thesis by blast
qed

text \<open>
  The gate's own tick once the deadline is reached: with the link up it closes the gate and
  changes nothing else; with the link down it returns before it looks at the deadline.
\<close>

lemma otaTick_at_deadline:
  assumes "otaEnabled s" "otaUntilMs s \<le> now"
  shows "otaTick now True s = s\<lparr>otaEnabled := False\<rparr>" "otaTick now False s = s"
  using assms by (simp_all add: otaTick_def)

section \<open>Macros\<close>

text \<open>Pushing touches the ring and nothing else.\<close>

lemma qPush_rest: "(snd (qPush a s))\<lparr>q := x, qTail := y, qCount := z\<rparr> = s\<lparr>q := x, qTail := y, qCount := z\<rparr>"
  by (simp add: qPush_def)

lemma queuePress_rest: "(queuePress i s)\<lparr>q := x, qTail := y, qCount := z\<rparr> = s\<lparr>q := x, qTail := y, qCount := z\<rparr>"
  by (simp add: queuePress_def qPush_rest)

lemma queueDelay_rest: "(queueDelay i s)\<lparr>q := x, qTail := y, qCount := z\<rparr> = s\<lparr>q := x, qTail := y, qCount := z\<rparr>"
  by (simp add: queueDelay_def qPush_rest)

lemma queueMacroModeSwitch_rest:
  "(queueMacroModeSwitch s)\<lparr>q := x, qTail := y, qCount := z\<rparr> = s\<lparr>q := x, qTail := y, qCount := z\<rparr>"
  by (simp add: queueMacroModeSwitch_def queuePress_rest queueDelay_rest)

lemma mode_switch_eq:
  "enqueueCommand now CMD_MODE_SWITCH payload plen s =
     (if \<not> otaEnabled s \<and> qCount s \<le> 26 then (True, queueMacroModeSwitch s) else (False, s))"
  by (simp add: enqueueCommand_def CMD_MODE_SWITCH_def CMD_OTA_MODE_def QSIZE_def)

lemma reset_eq:
  "enqueueCommand now CMD_RESET_SCOREBOARD payload plen s =
     (if \<not> otaEnabled s \<and> qCount s \<le> 26 then (True, queueMacroResetScoreboard s) else (False, s))"
  by (simp add: enqueueCommand_def CMD_RESET_SCOREBOARD_def CMD_MODE_SWITCH_def CMD_OTA_MODE_def
      QSIZE_def)

lemma mode_switch_admitted_iff:
  "fst (enqueueCommand now CMD_MODE_SWITCH payload plen s) = (\<not> otaEnabled s \<and> qCount s \<le> 26)"
  by (simp add: mode_switch_eq)

lemma mode_switch_result:
  "\<not> otaEnabled s \<Longrightarrow> qCount s \<le> 26 \<Longrightarrow>
     enqueueCommand now CMD_MODE_SWITCH payload plen s = (True, queueMacroModeSwitch s)"
  by (simp add: mode_switch_eq)

lemma reset_admitted_iff:
  "fst (enqueueCommand now CMD_RESET_SCOREBOARD payload plen s) = (\<not> otaEnabled s \<and> qCount s \<le> 26)"
  by (simp add: reset_eq)

text \<open>A macro that is refused leaves the state as it was.\<close>

lemma macro_rejected_unchanged:
  assumes "cmd = CMD_MODE_SWITCH \<or> cmd = CMD_RESET_SCOREBOARD"
    and "\<not> fst (enqueueCommand now cmd payload plen s)"
  shows "snd (enqueueCommand now cmd payload plen s) = s"
  using assms by (auto simp: mode_switch_eq reset_eq split: if_splits)

text \<open>
  The reset macro pushes seven actions. With room for seven all of them are queued; the
  admission test, however, asks for room for six only.
\<close>

lemma queueMacroResetScoreboard_contents:
  assumes "q_wf s" "qCount s + 7 \<le> QSIZE"
  shows "queue_contents (queueMacroResetScoreboard s) = queue_contents s @
       [\<lparr>atype = Press, arg = of_nat IDX_9\<rparr>, \<lparr>atype = Delay, arg = IR_GAP_MS_DEFAULT\<rparr>,
        \<lparr>atype = Press, arg = of_nat IDX_8\<rparr>, \<lparr>atype = Delay, arg = IR_GAP_MS_DEFAULT\<rparr>,
        \<lparr>atype = Press, arg = of_nat IDX_8\<rparr>, \<lparr>atype = Delay, arg = IR_GAP_MS_DEFAULT\<rparr>,
        \<lparr>atype = Press, arg = of_nat IDX_8\<rparr>]"
  using assms
  by (simp add: queueMacroResetScoreboard_def queuePress_contents queueDelay_contents)

lemma queueMacroResetScoreboard_short:
  assumes "q_wf s" "qCount s = 26"
  shows "queue_contents (queueMacroResetScoreboard s) = queue_contents s @
       [\<lparr>atype = Press, arg = of_nat IDX_9\<rparr>, \<lparr>atype = Delay, arg = IR_GAP_MS_DEFAULT\<rparr>,
        \<lparr>atype = Press, arg = of_nat IDX_8\<rparr>, \<lparr>atype = Delay, arg = IR_GAP_MS_DEFAULT\<rparr>,
        \<lparr>atype = Press, arg = of_nat IDX_8\<rparr>, \<lparr>atype = Delay, arg = IR_GAP_MS_DEFAULT\<rparr>]"
proof -
  let ?s6 = "queueDelay IR_GAP_MS_DEFAULT (queuePress IDX_8 (queueDelay IR_GAP_MS_DEFAULT
              (queuePress IDX_8 (queueDelay IR_GAP_MS_DEFAULT (queuePress IDX_9 s)))))"
  have six: "qCount ?s6 = 32" "queue_contents ?s6 = queue_contents s @
       [\<lparr>atype = Press, arg = of_nat IDX_9\<rparr>, \<lparr>atype = Delay, arg = IR_GAP_MS_DEFAULT\<rparr>,
        \<lparr>atype = Press, arg = of_nat IDX_8\<rparr>, \<lparr>atype = Delay, arg = IR_GAP_MS_DEFAULT\<rparr>,
        \<lparr>atype = Press, arg = of_nat IDX_8\<rparr>, \<lparr>atype = Delay, arg = IR_GAP_MS_DEFAULT\<rparr>]"
    using assms by (simp_all add: queuePress_contents queueDelay_contents QSIZE_def)
  have "queuePress IDX_8 ?s6 = ?s6"
    using six(1) by (simp add: queuePress_def qPush_full QSIZE_def)
  then show ?thesis
    using six(2) by (simp add: queueMacroResetScoreboard_def)
qed

text \<open>
  Claim C9. When the mode-switch macro is admitted, exactly six actions are appended to the
  queue, in this order: press of the exit index, default gap, press, default gap, press,
  final gap; nothing but the ring changes, and the final gap is longer than the default gap.
\<close>

theorem mode_switch_enqueues_six:
  assumes "q_wf s" and "fst (enqueueCommand now CMD_MODE_SWITCH payload plen s)"
  shows "queue_contents (snd (enqueueCommand now CMD_MODE_SWITCH payload plen s)) =
           queue_contents s @
             [\<lparr>atype = Press, arg = of_nat IDX_EXIT\<rparr>, \<lparr>atype = Delay, arg = IR_GAP_MS_DEFAULT\<rparr>,
              \<lparr>atype = Press, arg = of_nat IDX_EXIT\<rparr>, \<lparr>atype = Delay, arg = IR_GAP_MS_DEFAULT\<rparr>,
              \<lparr>atype = Press, arg = of_nat IDX_EXIT\<rparr>, \<lparr>atype = Delay, arg = IR_GAP_MS_EXIT3_END\<rparr>] \<and>
         qCount (snd (enqueueCommand now CMD_MODE_SWITCH payload plen s)) = qCount s + 6 \<and>
         (snd (enqueueCommand now CMD_MODE_SWITCH payload plen s))
            \<lparr>q := q s, qTail := qTail s, qCount := qCount s\<rparr> = s \<and>
         IR_GAP_MS_DEFAULT < IR_GAP_MS_EXIT3_END"
proof -
  from assms(2) have g: "\<not> otaEnabled s" "qCount s \<le> 26"
    by (simp_all add: mode_switch_admitted_iff)
  then have r: "enqueueCommand now CMD_MODE_SWITCH payload plen s = (True, queueMacroModeSwitch s)"
    by (rule mode_switch_result)
  have c: "qCount s + 6 \<le> QSIZE" using g by (simp add: QSIZE_def)
  show ?thesis
    unfolding r
    by (simp add: queueMacroModeSwitch_contents [OF assms(1) c] queueMacroModeSwitch_rest
        IR_GAP_MS_DEFAULT_def IR_GAP_MS_EXIT3_END_def)
qed

theorem mode_switch_enqueues_six_witness:
  "q_wf boot \<and> fst (enqueueCommand 0 CMD_MODE_SWITCH [] 0 boot) \<and>
   queue_contents (snd (enqueueCommand 0 CMD_MODE_SWITCH [] 0 boot)) =
     queue_contents boot @
       [\<lparr>atype = Press, arg = of_nat IDX_EXIT\<rparr>, \<lparr>atype = Delay, arg = IR_GAP_MS_DEFAULT\<rparr>,
        \<lparr>atype = Press, arg = of_nat IDX_EXIT\<rparr>, \<lparr>atype = Delay, arg = IR_GAP_MS_DEFAULT\<rparr>,
        \<lparr>atype = Press, arg = of_nat IDX_EXIT\<rparr>, \<lparr>atype = Delay, arg = IR_GAP_MS_EXIT3_END\<rparr>]"
proof -
  have h1: "q_wf boot" by code_simp
  have h2: "fst (enqueueCommand 0 CMD_MODE_SWITCH [] 0 boot)" by code_simp
  from mode_switch_enqueues_six [OF h1 h2] h1 h2 show ?thesis by blast
qed

text \<open>
  Claim C1, at the input where the code departs from it. With 26 actions queued the reset
  macro is admitted although its seven actions need seven free slots: the first six are
  queued, the queue is then full, and the third press of the reset index is dropped.
\<close>

theorem reset_macro_partial_at_26:
  "q_wf queue26 \<and> qCount queue26 = 26 \<and> \<not> otaEnabled queue26 \<and>
   fst (enqueueCommand 0 CMD_RESET_SCOREBOARD [] 0 queue26) \<and>
   queue_contents (snd (enqueueCommand 0 CMD_RESET_SCOREBOARD [] 0 queue26)) =
     queue_contents queue26 @
       [\<lparr>atype = Press, arg = 24\<rparr>, \<lparr>atype = Delay, arg = 100\<rparr>,
        \<lparr>atype = Press, arg = 23\<rparr>, \<lparr>atype = Delay, arg = 100\<rparr>,
        \<lparr>atype = Press, arg = 23\<rparr>, \<lparr>atype = Delay, arg = 100\<rparr>] \<and>
   length (queue_contents (snd (enqueueCommand 0 CMD_RESET_SCOREBOARD [] 0 queue26))) = 32"
  by code_simp

section \<open>Case analysis of the intake and of the dispatcher\<close>

lemma writeU16LE_readU16LE: "writeU16LE (readU16LE a b) = [a, b]"
proof -
  have m: "(0xFF :: u16) = mask 8" by (simp add: mask_eq_exp_minus_1)
  have 1: "(ucast (readU16LE a b AND mask 8) :: u8) = a"
    unfolding readU16LE_def
    by (rule bit_word_eqI) (auto simp: bit_simps dest: bit_imp_le_length)
  have 2: "(ucast (drop_bit 8 (readU16LE a b)) :: u8) = b"
    unfolding readU16LE_def
    by (rule bit_word_eqI) (auto simp: bit_simps dest: bit_imp_le_length)
  show ?thesis unfolding writeU16LE_def m using 1 2 by simp
qed

lemma datagram_cases:
  "(\<forall>now s. processDatagram now d s = s) \<or>
   (\<exists>cmd ident plen payload. d = frame (d_from d) cmd ident plen payload)"
proof (cases "length (take BUF_SIZE (d_data d)) < 6")
  case True
  then show ?thesis by (simp add: processDatagram_def)
next
  case False
  then have "6 \<le> length (d_data d)" by (simp add: BUF_SIZE_def)
  then obtain b0 b1 b2 b3 b4 b5 rest where e: "d_data d = b0 # b1 # b2 # b3 # b4 # b5 # rest"
    by (cases "d_data d"; simp; rename_tac x xs; case_tac xs; simp; rename_tac y ys; case_tac ys; simp;
        rename_tac z zs; case_tac zs; simp; rename_tac u us; case_tac us; simp;
        rename_tac v vs; case_tac vs; simp)
  show ?thesis
  proof (cases "b0 = MAGIC \<and> b1 = VER")
    case True
    have "d = frame (d_from d) b2 (readU16LE b3 b4) b5 rest"
      using e True by (simp add: frame_def writeU16LE_readU16LE)
    then show ?thesis by blast
  next
    case False
    then show ?thesis using e by (auto simp: processDatagram_def BUF_SIZE_def Let_def)
  qed
qed

lemma enqueueCommand_cases:
  "enqueueCommand now cmd payload plen s = (False, s) \<or>
   enqueueCommand now cmd payload plen s = (True, otaEnterOrExtendWindow now s) \<or>
   (\<exists>a. enqueueCommand now cmd payload plen s = qPush a s) \<or>
   enqueueCommand now cmd payload plen s = (True, queueMacroModeSwitch s) \<or>
   enqueueCommand now cmd payload plen s = (True, queueMacroResetScoreboard s) \<or>
   (\<exists>c on off. enqueueCommand now cmd payload plen s = (True, sirenStart now c on off s))"
  unfolding enqueueCommand_def Let_def by (simp; blast)

section \<open>Dispatcher and intake: what they change\<close>

lemma sent_append: "sent (xs @ ys) = sent xs @ sent ys"
  by (induction xs rule: sent.induct) simp_all

lemma ir_codes_append: "ir_codes (xs @ ys) = ir_codes xs @ ir_codes ys"
  by (induction xs rule: ir_codes.induct) simp_all

text \<open>What the dispatcher leaves alone, whatever the command.\<close>

lemma ring_only:
  assumes "t\<lparr>q := x, qTail := y, qCount := z\<rparr> = s\<lparr>q := x, qTail := y, qCount := z\<rparr>"
  shows "trace t = trace s" "rc5_toggle_state t = rc5_toggle_state s"
    "delayUntilMs t = delayUntilMs s" "qHead t = qHead s"
    "lastId t = lastId s" "lastIdValid t = lastIdValid s" "lastAckStatus t = lastAckStatus s"
proof -
  show "trace t = trace s" using arg_cong [OF assms, of trace] by simp
  show "rc5_toggle_state t = rc5_toggle_state s" using arg_cong [OF assms, of rc5_toggle_state] by simp
  show "delayUntilMs t = delayUntilMs s" using arg_cong [OF assms, of delayUntilMs] by simp
  show "qHead t = qHead s" using arg_cong [OF assms, of qHead] by simp
  show "lastId t = lastId s" using arg_cong [OF assms, of lastId] by simp
  show "lastIdValid t = lastIdValid s" using arg_cong [OF assms, of lastIdValid] by simp
  show "lastAckStatus t = lastAckStatus s" using arg_cong [OF assms, of lastAckStatus] by simp
qed

lemma queueMacroResetScoreboard_rest:
  "(queueMacroResetScoreboard s)\<lparr>q := x, qTail := y, qCount := z\<rparr> = s\<lparr>q := x, qTail := y, qCount := z\<rparr>"
  by (simp add: queueMacroResetScoreboard_def queuePress_rest queueDelay_rest)

lemma enqueueCommand_result:
  assumes "P s" "P (otaEnterOrExtendWindow now s)" "\<And>a. P (snd (qPush a s))"
    "P (queueMacroModeSwitch s)" "P (queueMacroResetScoreboard s)"
    "\<And>c on off. P (sirenStart now c on off s)"
  shows "P (snd (enqueueCommand now cmd payload plen s))"
  using enqueueCommand_cases [of now cmd payload plen s]
proof (elim disjE exE)
  fix a assume "enqueueCommand now cmd payload plen s = qPush a s"
  then show ?thesis using assms(3) [of a] by simp
qed (simp_all add: assms)

lemma ota_enter_trace:
  "trace (otaEnterOrExtendWindow now s) = trace s \<or>
   trace (otaEnterOrExtendWindow now s) = trace s @ [OtaBegin]"
  by (simp add: otaEnterOrExtendWindow_def otaInitOnce_def statusLedActivityBurst_def
      statusLedWrite_def)

lemma ota_enter_keeps:
  "rc5_toggle_state (otaEnterOrExtendWindow now s) = rc5_toggle_state s"
  "delayUntilMs (otaEnterOrExtendWindow now s) = delayUntilMs s"
  "lastId (otaEnterOrExtendWindow now s) = lastId s"
  "lastIdValid (otaEnterOrExtendWindow now s) = lastIdValid s"
  "lastAckStatus (otaEnterOrExtendWindow now s) = lastAckStatus s"
  "queue_contents (otaEnterOrExtendWindow now s) = queue_contents s"
  "q_wf (otaEnterOrExtendWindow now s) = q_wf s"
  by (simp_all add: otaEnterOrExtendWindow_def otaInitOnce_def statusLedActivityBurst_def
      statusLedWrite_def queue_contents_def q_wf_def)

lemma sirenStart_keeps:
  "trace (sirenStart now c on off s) = trace s"
  "rc5_toggle_state (sirenStart now c on off s) = rc5_toggle_state s"
  "delayUntilMs (sirenStart now c on off s) = delayUntilMs s"
  "lastId (sirenStart now c on off s) = lastId s"
  "lastIdValid (sirenStart now c on off s) = lastIdValid s"
  "lastAckStatus (sirenStart now c on off s) = lastAckStatus s"
  "queue_contents (sirenStart now c on off s) = queue_contents s"
  "q_wf (sirenStart now c on off s) = q_wf s"
  by (simp_all add: sirenStart_def sirenWrite_def Let_def queue_contents_def q_wf_def)

lemma enqueueCommand_trace:
  "trace (snd (enqueueCommand now cmd payload plen s)) = trace s \<or>
   trace (snd (enqueueCommand now cmd payload plen s)) = trace s @ [OtaBegin]"
  by (rule enqueueCommand_result)
     (simp_all add: ota_enter_trace sirenStart_keeps ring_only(1) [OF qPush_rest]
        ring_only(1) [OF queueMacroModeSwitch_rest] ring_only(1) [OF queueMacroResetScoreboard_rest])

lemma enqueueCommand_keeps:
  "rc5_toggle_state (snd (enqueueCommand now cmd payload plen s)) = rc5_toggle_state s"
  "delayUntilMs (snd (enqueueCommand now cmd payload plen s)) = delayUntilMs s"
  "lastId (snd (enqueueCommand now cmd payload plen s)) = lastId s"
  "lastIdValid (snd (enqueueCommand now cmd payload plen s)) = lastIdValid s"
  "lastAckStatus (snd (enqueueCommand now cmd payload plen s)) = lastAckStatus s"
  by (rule enqueueCommand_result;
      simp add: ota_enter_keeps sirenStart_keeps ring_only [OF qPush_rest]
        ring_only [OF queueMacroModeSwitch_rest] ring_only [OF queueMacroResetScoreboard_rest])+

lemma length_ackBytes: "length (ackBytes i st) = 7"
  by (simp add: ackBytes_def writeU16LE_def)

lemma frame_cases:
  "(\<forall>now s. processDatagram now d s = s) \<or>
   (\<exists>ep cmd ident plen payload. d = frame ep cmd ident plen payload)"
  using datagram_cases [of d] by blast



lemma intake_dispatch:
  assumes "6 + unat plen = 6 + min (length payload) 122" "\<not> (lastIdValid s \<and> i = lastId s)"
  shows "processDatagram now (frame ep cmd i plen payload) s =
           sendAck ep i (if fst (enqueueCommand now cmd (take 122 payload) plen s) then 1 else 0)
             ((if fst (enqueueCommand now cmd (take 122 payload) plen s)
               then statusLedActivityBurst now else (\<lambda>x. x))
                ((snd (enqueueCommand now cmd (take 122 payload) plen s))
                   \<lparr>lastId := i, lastIdValid := True,
                    lastAckStatus := (if fst (enqueueCommand now cmd (take 122 payload) plen s) then 1 else 0)\<rparr>))"
proof -
  have a: "(6 + unat plen \<noteq> 6 + min (length payload) 122) = False" using assms(1) by simp
  have b: "(lastIdValid s \<and> i = lastId s) = False" using assms(2) by simp
  show ?thesis
    unfolding processDatagram_frame a b Let_def if_False
    by (cases "fst (enqueueCommand now cmd (take 122 payload) plen s)") simp_all
qed

lemma burst_keeps:
  "trace (statusLedActivityBurst now s) = trace s"
  "lastId (statusLedActivityBurst now s) = lastId s"
  "lastIdValid (statusLedActivityBurst now s) = lastIdValid s"
  "lastAckStatus (statusLedActivityBurst now s) = lastAckStatus s"
  by (simp_all add: statusLedActivityBurst_def statusLedWrite_def)


lemma replay_shape:
  assumes "s1 = sendAck ep i st s0" "sent (trace s0) = sent (trace s)"
    and "s2 = s1\<lparr>trace := trace s1 @ map (\<lambda>(ep, bs). UdpSend ep bs) [(ep, ackBytes i st)]\<rparr>"
  shows "\<exists>new. sent (trace s1) = sent (trace s) @ new \<and>
          s2 = s1\<lparr>trace := trace s1 @ map (\<lambda>(ep, bs). UdpSend ep bs) new\<rparr> \<and>
          length new \<le> 1 \<and> (\<forall>(ep, bs) \<in> set new. length bs = 7)"
proof -
  have "sent (trace s1) = sent (trace s) @ [(ep, ackBytes i st)]"
    using assms(1,2) by (simp add: sendAck_def sent_append)
  moreover have "length [(ep, ackBytes i st)] \<le> 1" by simp
  moreover have "\<forall>(ep, bs) \<in> set [(ep, ackBytes i st)]. length bs = 7"
    by (simp add: length_ackBytes)
  ultimately show ?thesis using assms(3) by blast
qed

section \<open>Deduplication and acknowledgement\<close>

text \<open>The specification's example frame received twice: one press queued, two equal answers.\<close>

lemma example_twice:
  "sent (trace (processDatagram 9 example_frame (processDatagram 0 example_frame boot))) =
     [((1, 2), [0xA5, 0x01, 0x7F, 0x2A, 0x00, 0x01, 0x00]), ((1, 2), [0xA5, 0x01, 0x7F, 0x2A, 0x00, 0x01, 0x00])]"
  "queue_contents (processDatagram 9 example_frame (processDatagram 0 example_frame boot)) =
     [\<lparr>atype = Press, arg = 4\<rparr>]"
  by code_simp+

section \<open>Length validation\<close>


text \<open>
  A datagram that fits the 128-byte receive buffer and whose length differs from six plus
  its length byte is answered with status 0 under its request id, and the dedup record
  takes that id and status.
\<close>

lemma length_mismatch_rejected:
  assumes "6 \<le> length (d_data d)" "length (d_data d) \<le> BUF_SIZE"
    and "d_data d ! 0 = MAGIC" "d_data d ! 1 = VER"
    and "length (d_data d) \<noteq> 6 + unat (d_data d ! 5)"
  shows "processDatagram now d s =
           sendAck (d_from d) (readU16LE (d_data d ! 3) (d_data d ! 4)) 0
             (s\<lparr>lastId := readU16LE (d_data d ! 3) (d_data d ! 4), lastIdValid := True,
                lastAckStatus := 0\<rparr>)"
  using assms by (auto simp: processDatagram_def Let_def)

text \<open>
  Claim C7, at the input where the code departs from it. The length test compares the
  declared length with the number of bytes copied into the 128-byte buffer, not with the
  size of the datagram. A 200-byte datagram that declares 122 payload bytes therefore
  passes the test, its press command is queued, and it is acknowledged with status 1.
\<close>

theorem oversize_frame_accepted:
  "length (d_data oversize_frame) = 200 \<and>
   6 + unat (d_data oversize_frame ! 5) = 128 \<and>
   d_data oversize_frame ! 0 = MAGIC \<and> d_data oversize_frame ! 1 = VER \<and>
   sent (trace (processDatagram 0 oversize_frame boot)) =
     [((1, 2), [0xA5, 0x01, 0x7F, 0x2A, 0x00, 0x01, 0x00])] \<and>
   lastAckStatus (processDatagram 0 oversize_frame boot) = 1 \<and>
   queue_contents (processDatagram 0 oversize_frame boot) = [\<lparr>atype = Press, arg = 4\<rparr>]"
  by code_simp

section \<open>Payload handling of the dispatcher\<close>

text \<open>The branches of the dispatcher with the gate closed, one equation per command.\<close>

lemma press_eq:
  assumes "\<not> otaEnabled s" "0x01 \<le> cmd" "cmd \<le> 0x1B"
  shows "enqueueCommand now cmd payload plen s = qPush \<lparr>atype = Press, arg = ucast (cmd - 1)\<rparr> s"
proof -
  have "cmd \<noteq> CMD_OTA_MODE" using assms(3) by (auto simp: CMD_OTA_MODE_def)
  moreover have "\<not> 27 \<le> cmd - 1" using assms(2,3) by unat_arith
  ultimately show ?thesis using assms by (simp add: enqueueCommand_def Let_def)
qed

lemma siren_eq:
  assumes "\<not> otaEnabled s"
  shows "enqueueCommand now CMD_SIREN payload plen s =
     (if plen < 1 then (False, s)
      else if payload ! 0 < 1 \<or> payload ! 0 > 3 then (False, s)
      else if plen < 1 + payload ! 0 * 4 then (False, s)
      else (True, sirenStart now (unat (payload ! 0))
              (map (\<lambda>i. if i < unat (payload ! 0)
                         then readU16LE (payload ! (1 + 4 * i)) (payload ! (2 + 4 * i)) else 0) [0..<5])
              (map (\<lambda>i. if i < unat (payload ! 0)
                         then readU16LE (payload ! (3 + 4 * i)) (payload ! (4 + 4 * i)) else 0) [0..<5])
              s))"
  using assms
  by (simp add: enqueueCommand_def Let_def CMD_SIREN_def CMD_OTA_MODE_def CMD_MODE_SWITCH_def
      CMD_RESET_SCOREBOARD_def)

lemma ota_eq:
  "enqueueCommand now CMD_OTA_MODE payload plen s =
     (if plen \<noteq> 0 then (False, s) else (True, otaEnterOrExtendWindow now s))"
  by (simp add: enqueueCommand_def)

lemma count_cases: "(1 :: u8) \<le> c \<Longrightarrow> c \<le> 3 \<Longrightarrow> c = 1 \<or> c = 2 \<or> c = 3"
  by unat_arith

lemma siren_extra_ignored:
  assumes g: "\<not> otaEnabled s"
    and p: "p \<noteq> []" "1 \<le> p ! 0" "p ! 0 \<le> 3" "length p = 1 + 4 * unat (p ! 0)"
    and l: "1 + p ! 0 * 4 \<le> plen"
  shows "fst (enqueueCommand now CMD_SIREN (p @ extra) plen s)"
    "enqueueCommand now CMD_SIREN (p @ extra) plen s =
       enqueueCommand now CMD_SIREN p (1 + p ! 0 * 4) s"
proof -
  have z: "(p @ extra) ! 0 = p ! 0" using p(1) by (simp add: nth_append)
  have c: "p ! 0 = 1 \<or> p ! 0 = 2 \<or> p ! 0 = 3" using p(2,3) by (rule count_cases)
  have n1: "\<not> plen < 1" using l c by (elim disjE; simp; unat_arith)
  have n2: "\<not> (p ! 0 < 1 \<or> p ! 0 > 3)" using c by (elim disjE; simp)
  have n3: "\<not> plen < 1 + p ! 0 * 4" using l by (simp add: not_less)
  have n4: "\<not> (1 + p ! 0 * 4 < 1)" using c by (elim disjE; simp)
  have rd: "\<And>i k. i < unat (p ! 0) \<Longrightarrow> k \<le> 4 \<Longrightarrow> (p @ extra) ! (k + 4 * i) = p ! (k + 4 * i)"
    using p(4) by (simp add: nth_append)
  have on: "(\<lambda>i. if i < unat (p ! 0)
                 then readU16LE ((p @ extra) ! (1 + 4 * i)) ((p @ extra) ! (2 + 4 * i)) else 0) =
            (\<lambda>i. if i < unat (p ! 0) then readU16LE (p ! (1 + 4 * i)) (p ! (2 + 4 * i)) else 0)"
    using rd [of _ 1] rd [of _ 2] by auto
  have off: "(\<lambda>i. if i < unat (p ! 0)
                 then readU16LE ((p @ extra) ! (3 + 4 * i)) ((p @ extra) ! (4 + 4 * i)) else 0) =
            (\<lambda>i. if i < unat (p ! 0) then readU16LE (p ! (3 + 4 * i)) (p ! (4 + 4 * i)) else 0)"
    using rd [of _ 3] rd [of _ 4] by auto
  show "fst (enqueueCommand now CMD_SIREN (p @ extra) plen s)"
    unfolding siren_eq [OF g] z using n1 n2 n3 by simp
  show "enqueueCommand now CMD_SIREN (p @ extra) plen s =
       enqueueCommand now CMD_SIREN p (1 + p ! 0 * 4) s"
    unfolding siren_eq [OF g] z on off using n1 n2 n3 n4 by simp
qed

section \<open>RC5 encoder: the toggle bit\<close>

lemma mask_split:
  "(b AND NOT RC5_TOGGLE_MASK_12BIT) AND RC5_TOGGLE_MASK_12BIT = 0"
  "(b OR RC5_TOGGLE_MASK_12BIT) AND RC5_TOGGLE_MASK_12BIT = RC5_TOGGLE_MASK_12BIT"
  by (simp_all add: and.assoc bit.conj_disj_distrib2)

lemma rc5_row_toggle:
  "\<not> toggle_bit (v_t0 (rc5_row b))" "toggle_bit (v_t1 (rc5_row b))"
  by (simp_all add: toggle_bit_def rc5_row_def mask_split) (simp add: RC5_TOGGLE_MASK_12BIT_def)

lemma length_RC5_TABLE: "length RC5_TABLE = 27"
  by (simp add: RC5_TABLE_def)

lemma table_toggle:
  assumes "idx < 27"
  shows "\<not> toggle_bit (v_t0 (RC5_TABLE ! idx))" "toggle_bit (v_t1 (RC5_TABLE ! idx))"
proof -
  have "\<exists>b. RC5_TABLE ! idx = rc5_row b"
    unfolding RC5_TABLE_def using assms by (subst nth_map) (blast | simp)+
  then obtain b where "RC5_TABLE ! idx = rc5_row b" ..
  then show "\<not> toggle_bit (v_t0 (RC5_TABLE ! idx))" "toggle_bit (v_t1 (RC5_TABLE ! idx))"
    by (simp_all add: rc5_row_toggle)
qed

lemma sendRc5Press_ir:
  "ir_codes (trace (sendRc5Press now idx s)) =
     ir_codes (trace s) @ [if rc5_toggle_state s XOR 1 = 0 then v_t0 (RC5_TABLE ! idx)
                           else v_t1 (RC5_TABLE ! idx)]"
  "rc5_toggle_state (sendRc5Press now idx s) = rc5_toggle_state s XOR 1"
  by (simp_all add: sendRc5Press_def Let_def burst_keeps ir_codes_append
      statusLedActivityBurst_def statusLedWrite_def)

lemma toggle_inv_snoc:
  assumes "toggle_inv s" "ir_codes (trace t) = ir_codes (trace s) @ [v]"
    "toggle_bit v = even (length (ir_codes (trace s)))"
    "rc5_toggle_state t = rc5_toggle_state s XOR 1"
  shows "toggle_inv t"
proof -
  let ?n = "length (ir_codes (trace s))"
  have a: "rc5_toggle_state s = (if even ?n then 0 else 1)"
    and b: "\<forall>k < ?n. toggle_bit (ir_codes (trace s) ! k) = even k"
    using assms(1) by (simp_all add: toggle_inv_def list_all_iff)
  have c1: "rc5_toggle_state t = (if even (Suc ?n) then 0 else 1)"
    using a assms(4) by simp
  have c2: "toggle_bit ((ir_codes (trace s) @ [v]) ! k) = even k" if "k < Suc ?n" for k
  proof (cases "k < ?n")
    case True
    then show ?thesis using b by (simp add: nth_append)
  next
    case False
    then have "k = ?n" using that by simp
    then show ?thesis using assms(3) by simp
  qed
  have len: "length (ir_codes (trace t)) = Suc ?n" by (simp add: assms(2))
  show ?thesis
    unfolding toggle_inv_def list_all_iff len
  proof (intro conjI ballI)
    show "rc5_toggle_state t = (if even (Suc ?n) then 0 else 1)" by (rule c1)
    fix k assume "k \<in> set [0..<Suc ?n]"
    then have "k < Suc ?n" by auto
    then show "toggle_bit (ir_codes (trace t) ! k) = even k"
      unfolding assms(2) by (rule c2)
  qed
qed

lemma sendRc5Press_inv:
  assumes "toggle_inv s" "idx < 27"
  shows "toggle_inv (sendRc5Press now idx s)"
proof (rule toggle_inv_snoc [OF assms(1) sendRc5Press_ir(1) _ sendRc5Press_ir(2)])
  show "toggle_bit (if rc5_toggle_state s XOR 1 = 0 then v_t0 (RC5_TABLE ! idx)
                    else v_t1 (RC5_TABLE ! idx)) = even (length (ir_codes (trace s)))"
    using assms by (auto simp: toggle_inv_def table_toggle)
qed

lemma toggle_inv_same:
  assumes "toggle_inv s" "ir_codes (trace t) = ir_codes (trace s)"
    "rc5_toggle_state t = rc5_toggle_state s"
  shows "toggle_inv t"
  using assms by (simp add: toggle_inv_def)

section \<open>What each engine emits\<close>

text \<open>Engines other than the executor emit no code and leave the toggle alone.\<close>

lemma statusLedTick_keeps:
  "trace (statusLedTick now wifi s) = trace s"
  "rc5_toggle_state (statusLedTick now wifi s) = rc5_toggle_state s"
  "queue_contents (statusLedTick now wifi s) = queue_contents s"
  "q_wf (statusLedTick now wifi s) = q_wf s"
  by (simp_all add: statusLedTick_def statusLedSetBase_def statusLedWrite_def Let_def
      queue_contents_def q_wf_def)

lemma wifiTick_keeps:
  "trace (wifiTick now wifi s) = trace s \<or> trace (wifiTick now wifi s) = trace s @ [WifiReconnect]"
  "rc5_toggle_state (wifiTick now wifi s) = rc5_toggle_state s"
  "queue_contents (wifiTick now wifi s) = queue_contents s"
  "q_wf (wifiTick now wifi s) = q_wf s"
  by (simp_all add: wifiTick_def queue_contents_def q_wf_def)

lemma otaTick_keeps:
  "trace (otaTick now wifi s) = trace s \<or> trace (otaTick now wifi s) = trace s @ [OtaHandle]"
  "rc5_toggle_state (otaTick now wifi s) = rc5_toggle_state s"
  "queue_contents (otaTick now wifi s) = queue_contents s"
  "q_wf (otaTick now wifi s) = q_wf s"
  by (simp_all add: otaTick_def queue_contents_def q_wf_def)

lemma sirenTick_keeps:
  "trace (sirenTick now s) = trace s"
  "rc5_toggle_state (sirenTick now s) = rc5_toggle_state s"
  "queue_contents (sirenTick now s) = queue_contents s"
  "q_wf (sirenTick now s) = q_wf s"
  by (simp_all add: sirenTick_def sirenStop_def sirenWrite_def Let_def queue_contents_def q_wf_def)

lemma processDatagram_trace:
  "\<exists>evs. trace (processDatagram now d s) = trace s @ evs \<and> ir_codes evs = []"
proof -
  from frame_cases [of d] show ?thesis
  proof
    assume "\<forall>now s. processDatagram now d s = s"
    then show ?thesis by simp
  next
    assume "\<exists>ep cmd ident plen payload. d = frame ep cmd ident plen payload"
    then obtain ep cmd i plen payload where d: "d = frame ep cmd i plen payload" by blast
    let ?r = "enqueueCommand now cmd (take 122 payload) plen s"
    have "trace (snd ?r) = trace s @ [] \<or> trace (snd ?r) = trace s @ [OtaBegin]"
      using enqueueCommand_trace [of now cmd "take 122 payload" plen s] by simp
    then obtain e0 where e0: "trace (snd ?r) = trace s @ e0" "ir_codes e0 = []" by auto
    show ?thesis
      unfolding d processDatagram_frame Let_def
      using e0 by (simp add: sendAck_def burst_keeps ir_codes_append)
  qed
qed

lemma processDatagram_keeps:
  "rc5_toggle_state (processDatagram now d s) = rc5_toggle_state s"
  "delayUntilMs (processDatagram now d s) = delayUntilMs s"
proof -
  from frame_cases [of d]
  have "rc5_toggle_state (processDatagram now d s) = rc5_toggle_state s \<and>
        delayUntilMs (processDatagram now d s) = delayUntilMs s"
  proof
    assume "\<forall>now s. processDatagram now d s = s"
    then show ?thesis by simp
  next
    assume "\<exists>ep cmd ident plen payload. d = frame ep cmd ident plen payload"
    then obtain ep cmd i plen payload where d: "d = frame ep cmd i plen payload" by blast
    show ?thesis
      unfolding d processDatagram_frame Let_def
      by (simp add: sendAck_def enqueueCommand_keeps statusLedActivityBurst_def statusLedWrite_def)
  qed
  then show "rc5_toggle_state (processDatagram now d s) = rc5_toggle_state s"
    "delayUntilMs (processDatagram now d s) = delayUntilMs s" by simp_all
qed

lemma processUdp_trace:
  "\<exists>evs. trace (processUdp now ds s) = trace s @ evs \<and> ir_codes evs = []"
proof (induction ds arbitrary: s)
  case Nil
  then show ?case by simp
next
  case (Cons d ds)
  show ?case
  proof (cases "length (d_data d) > 0")
    case False
    then show ?thesis by simp
  next
    case True
    obtain e1 where e1: "trace (processDatagram now d s) = trace s @ e1" "ir_codes e1 = []"
      using processDatagram_trace by blast
    obtain e2 where e2: "trace (processUdp now ds (processDatagram now d s)) =
        trace (processDatagram now d s) @ e2" "ir_codes e2 = []"
      using Cons.IH by blast
    have "trace (processUdp now (d # ds) s) = trace s @ (e1 @ e2) \<and> ir_codes (e1 @ e2) = []"
      using True e1 e2 by (simp add: ir_codes_append)
    then show ?thesis by blast
  qed
qed

lemma processUdp_keeps:
  "rc5_toggle_state (processUdp now ds s) = rc5_toggle_state s"
  "delayUntilMs (processUdp now ds s) = delayUntilMs s"
  by (induction ds arbitrary: s) (simp_all add: processDatagram_keeps)

section \<open>The toggle bit over whole runs\<close>

lemma toggle_inv_upd:
  "toggle_inv (s\<lparr>delayUntilMs := x\<rparr>) = toggle_inv s"
  "toggle_inv (s\<lparr>qHead := h, qCount := c\<rparr>) = toggle_inv s"
  by (simp_all add: toggle_inv_def)

lemma actionTick_inv:
  assumes "toggle_inv s"
  shows "toggle_inv (actionTick now s)"
proof -
  have p: "toggle_inv (sendRc5Press now (unat idx) t)" if "toggle_inv t" "idx < 27" for idx :: u8 and t
    using that by (intro sendRc5Press_inv) (simp_all add: word_less_nat_alt)
  show ?thesis
    using assms
    by (simp add: actionTick_def qPop_def Let_def toggle_inv_upd p split: ActionType.split)
qed

lemma actionTick_trace:
  "\<exists>evs. trace (actionTick now s) = trace s @ evs \<and> sent evs = [] \<and> length evs \<le> 1 \<and>
         list_all is_ir evs"
  by (simp add: actionTick_def qPop_def Let_def sendRc5Press_def statusLedActivityBurst_def
      statusLedWrite_def split: ActionType.split)

lemma wifiTick_ir: "ir_codes (trace (wifiTick now wifi s)) = ir_codes (trace s)"
  using wifiTick_keeps(1) [of now wifi s] by (auto simp: ir_codes_append)

lemma otaTick_ir: "ir_codes (trace (otaTick now wifi s)) = ir_codes (trace s)"
  using otaTick_keeps(1) [of now wifi s] by (auto simp: ir_codes_append)

lemma processUdp_ir: "ir_codes (trace (processUdp now ds s)) = ir_codes (trace s)"
  using processUdp_trace [of now ds s] by (auto simp: ir_codes_append)

lemma loop_inv:
  assumes "toggle_inv s"
  shows "toggle_inv (loop i s)"
proof -
  let ?s1 = "statusLedTick (t_now i) (t_wifi i) s"
  let ?s2 = "wifiTick (t_now i) (t_wifi i) ?s1"
  let ?s3 = "if t_wifi i then processUdp (t_now i) (t_inbox i) ?s2 else ?s2"
  let ?s4 = "otaTick (t_now i) (t_wifi i) ?s3"
  let ?s5 = "actionTick (t_now i) ?s4"
  have 1: "toggle_inv ?s1"
    by (rule toggle_inv_same [OF assms]) (simp_all add: statusLedTick_keeps)
  have 2: "toggle_inv ?s2"
    by (rule toggle_inv_same [OF 1]) (simp_all add: wifiTick_ir wifiTick_keeps)
  have 3: "toggle_inv ?s3"
    by (rule toggle_inv_same [OF 2]) (simp_all add: processUdp_ir processUdp_keeps)
  have 4: "toggle_inv ?s4"
    by (rule toggle_inv_same [OF 3]) (simp_all add: otaTick_ir otaTick_keeps)
  have 5: "toggle_inv ?s5" using 4 by (rule actionTick_inv)
  have "toggle_inv (sirenTick (t_now i) ?s5)"
    by (rule toggle_inv_same [OF 5]) (simp_all add: sirenTick_keeps)
  then show ?thesis by (simp add: loop_def Let_def)
qed

lemma run_inv: "toggle_inv s \<Longrightarrow> toggle_inv (run inputs s)"
  by (induction inputs arbitrary: s) (simp_all add: loop_inv)

lemma boot_inv: "toggle_inv boot"
  by (simp add: toggle_inv_def boot_def)

lemma presses_inv:
  "toggle_inv s \<Longrightarrow> \<forall>p \<in> set presses. snd p < 27 \<Longrightarrow>
     toggle_inv (fold (\<lambda>(now, idx). sendRc5Press now idx) presses s)"
  by (induction presses arbitrary: s) (auto simp: sendRc5Press_inv)

lemma presses_length:
  "length (ir_codes (trace (fold (\<lambda>(now, idx). sendRc5Press now idx) presses s))) =
     length (ir_codes (trace s)) + length presses"
  by (induction presses arbitrary: s) (auto simp: sendRc5Press_ir)

lemma two_presses_codes: "ir_codes (trace (run two_presses boot)) = [0x838, 0x0CA]"
  by code_simp

text \<open>
  Claim C6. In every run of the main loop from the boot state, whatever is received, the
  emitted code number \<open>k\<close> (counting from 0) has its toggle bit set exactly when \<open>k\<close> is even:
  the first press carries the flipped boot value 1, the next 0, and so on, whichever table
  indices are pressed and whether a press comes from a single-press command or from a macro
  step, since every press is executed from the queue. The same holds for the encoder alone,
  called for any sequence of table indices.
\<close>

theorem toggle_bit_alternates:
  "(k < length (ir_codes (trace (run inputs boot))) \<longrightarrow>
      toggle_bit (ir_codes (trace (run inputs boot)) ! k) = even k) \<and>
   ((\<forall>p \<in> set presses. snd p < 27) \<and> j < length presses \<longrightarrow>
      length (ir_codes (trace (fold (\<lambda>(now, idx). sendRc5Press now idx) presses boot))) = length presses \<and>
      toggle_bit (ir_codes (trace (fold (\<lambda>(now, idx). sendRc5Press now idx) presses boot)) ! j) = even j)"
proof (intro conjI impI)
  assume "k < length (ir_codes (trace (run inputs boot)))"
  then show "toggle_bit (ir_codes (trace (run inputs boot)) ! k) = even k"
    using run_inv [OF boot_inv, of inputs] by (simp add: toggle_inv_def list_all_iff)
next
  assume a: "(\<forall>p \<in> set presses. snd p < 27) \<and> j < length presses"
  show l: "length (ir_codes (trace (fold (\<lambda>(now, idx). sendRc5Press now idx) presses boot))) = length presses"
    by (simp add: presses_length) (simp add: boot_def)
  show "toggle_bit (ir_codes (trace (fold (\<lambda>(now, idx). sendRc5Press now idx) presses boot)) ! j) = even j"
    using presses_inv [OF boot_inv, of presses] a l by (simp add: toggle_inv_def list_all_iff)
qed

theorem toggle_bit_alternates_witness:
  "1 < length (ir_codes (trace (run two_presses boot))) \<and>
   toggle_bit (ir_codes (trace (run two_presses boot)) ! 1) = even (1 :: nat) \<and>
   (0 :: nat) < length [(0 :: u32, 4 :: nat), (5, 0)] \<and>
   toggle_bit (ir_codes (trace (fold (\<lambda>(now, idx). sendRc5Press now idx) [(0, 4), (5, 0)] boot)) ! 0) =
     even (0 :: nat)"
proof -
  have h1: "1 < length (ir_codes (trace (run two_presses boot)))" by code_simp
  have h2: "(\<forall>p \<in> set [(0 :: u32, 4 :: nat), (5, 0)]. snd p < 27) \<and>
            (0 :: nat) < length [(0 :: u32, 4 :: nat), (5, 0)]" by simp
  from toggle_bit_alternates [where k = 1 and inputs = two_presses
      and presses = "[(0, 4), (5, 0)]" and j = 0] h1 h2
  show ?thesis by blast
qed

section \<open>Acknowledgement before execution\<close>

text \<open>Pushing only ever appends: what was queued stays queued, in order, ahead of the rest.\<close>

lemma qPush_prefix:
  assumes "q_wf s"
  shows "q_wf (snd (qPush a s)) \<and> prefix (queue_contents s) (queue_contents (snd (qPush a s)))"
proof (cases "qCount s < QSIZE")
  case True
  then show ?thesis using qPush_contents(2,3) [OF assms True, of a] by simp
next
  case False
  then show ?thesis using assms by (simp add: qPush_full)
qed

lemma queuePress_prefix:
  "q_wf s \<Longrightarrow> q_wf (queuePress i s) \<and> prefix (queue_contents s) (queue_contents (queuePress i s))"
  by (simp add: queuePress_def qPush_prefix)

lemma queueDelay_prefix:
  "q_wf s \<Longrightarrow> q_wf (queueDelay ms s) \<and> prefix (queue_contents s) (queue_contents (queueDelay ms s))"
  by (simp add: queueDelay_def qPush_prefix)

lemma press_chain:
  assumes "q_wf t \<and> prefix (queue_contents s) (queue_contents t)"
  shows "q_wf (queuePress i t) \<and> prefix (queue_contents s) (queue_contents (queuePress i t))"
  using assms queuePress_prefix [of t i] prefix_order.trans by blast

lemma delay_chain:
  assumes "q_wf t \<and> prefix (queue_contents s) (queue_contents t)"
  shows "q_wf (queueDelay ms t) \<and> prefix (queue_contents s) (queue_contents (queueDelay ms t))"
  using assms queueDelay_prefix [of t ms] prefix_order.trans by blast

lemma queueMacroModeSwitch_prefix:
  assumes "q_wf s"
  shows "q_wf (queueMacroModeSwitch s) \<and>
         prefix (queue_contents s) (queue_contents (queueMacroModeSwitch s))"
proof -
  have 0: "q_wf s \<and> prefix (queue_contents s) (queue_contents s)" using assms by simp
  show ?thesis
    unfolding queueMacroModeSwitch_def
    by (rule delay_chain press_chain)+ (rule 0)
qed

lemma queueMacroResetScoreboard_prefix:
  assumes "q_wf s"
  shows "q_wf (queueMacroResetScoreboard s) \<and>
         prefix (queue_contents s) (queue_contents (queueMacroResetScoreboard s))"
proof -
  have 0: "q_wf s \<and> prefix (queue_contents s) (queue_contents s)" using assms by simp
  show ?thesis
    unfolding queueMacroResetScoreboard_def
    by (rule delay_chain press_chain)+ (rule 0)
qed

lemma enqueueCommand_prefix:
  assumes "q_wf s"
  shows "q_wf (snd (enqueueCommand now cmd payload plen s)) \<and>
         prefix (queue_contents s) (queue_contents (snd (enqueueCommand now cmd payload plen s)))"
  by (rule enqueueCommand_result)
     (simp_all add: assms ota_enter_keeps sirenStart_keeps qPush_prefix
        queueMacroModeSwitch_prefix queueMacroResetScoreboard_prefix)

lemma enqueueCommand_ir:
  "ir_codes (trace (snd (enqueueCommand now cmd payload plen s))) = ir_codes (trace s)"
  using enqueueCommand_trace [of now cmd payload plen s] by (auto simp: ir_codes_append)

lemma queue_view_upd:
  "queue_contents (sendAck ep i st s) = queue_contents s"
  "q_wf (sendAck ep i st s) = q_wf s"
  "queue_contents (statusLedActivityBurst now s) = queue_contents s"
  "q_wf (statusLedActivityBurst now s) = q_wf s"
  "queue_contents (s\<lparr>lastId := a, lastIdValid := b, lastAckStatus := c\<rparr>) = queue_contents s"
  "q_wf (s\<lparr>lastId := a, lastIdValid := b, lastAckStatus := c\<rparr>) = q_wf s"
  by (simp_all add: sendAck_def statusLedActivityBurst_def statusLedWrite_def queue_contents_def
      q_wf_def)

lemma processDatagram_prefix:
  assumes "q_wf s"
  shows "q_wf (processDatagram now d s) \<and>
         prefix (queue_contents s) (queue_contents (processDatagram now d s))"
proof -
  from frame_cases [of d] show ?thesis
  proof
    assume "\<forall>now s. processDatagram now d s = s"
    then show ?thesis using assms by simp
  next
    assume "\<exists>ep cmd ident plen payload. d = frame ep cmd ident plen payload"
    then obtain ep cmd i plen payload where d: "d = frame ep cmd i plen payload" by blast
    show ?thesis
      unfolding d processDatagram_frame Let_def
      using assms enqueueCommand_prefix [OF assms, of now cmd "take 122 payload" plen]
      by (simp add: queue_view_upd)
  qed
qed

lemma processUdp_prefix:
  "q_wf s \<Longrightarrow> q_wf (processUdp now ds s) \<and>
     prefix (queue_contents s) (queue_contents (processUdp now ds s))"
proof (induction ds arbitrary: s)
  case Nil
  then show ?case by simp
next
  case (Cons d ds)
  show ?case
  proof (cases "length (d_data d) > 0")
    case False
    then show ?thesis using Cons.prems by simp
  next
    case True
    have 1: "q_wf (processDatagram now d s) \<and>
             prefix (queue_contents s) (queue_contents (processDatagram now d s))"
      using Cons.prems by (rule processDatagram_prefix)
    from Cons.IH [of "processDatagram now d s"] 1 True
    show ?thesis using prefix_order.trans by auto
  qed
qed

text \<open>One pass of the main loop: first the events of the intake side, then the executor's.\<close>

lemma loop_trace:
  "\<exists>pre post. trace (loop i s) = trace s @ pre @ post \<and> ir_codes pre = [] \<and> sent post = [] \<and>
              length post \<le> 1"
proof -
  let ?s1 = "statusLedTick (t_now i) (t_wifi i) s"
  let ?s2 = "wifiTick (t_now i) (t_wifi i) ?s1"
  let ?s3 = "if t_wifi i then processUdp (t_now i) (t_inbox i) ?s2 else ?s2"
  let ?s4 = "otaTick (t_now i) (t_wifi i) ?s3"
  let ?s5 = "actionTick (t_now i) ?s4"
  obtain e2 where e2: "trace ?s2 = trace s @ e2" "ir_codes e2 = []"
    using wifiTick_keeps(1) [of "t_now i" "t_wifi i" ?s1] by (auto simp: statusLedTick_keeps)
  obtain e3 where e3: "trace ?s3 = trace ?s2 @ e3" "ir_codes e3 = []"
    using processUdp_trace [of "t_now i" "t_inbox i" ?s2] by (cases "t_wifi i") auto
  obtain e4 where e4: "trace ?s4 = trace ?s3 @ e4" "ir_codes e4 = []"
    using otaTick_keeps(1) [of "t_now i" "t_wifi i" ?s3] by auto
  obtain e5 where e5: "trace ?s5 = trace ?s4 @ e5" "sent e5 = []" "length e5 \<le> 1"
    using actionTick_trace [of "t_now i" ?s4] by blast
  have "trace (loop i s) = trace ?s5" by (simp add: loop_def Let_def sirenTick_keeps)
  then have "trace (loop i s) = trace s @ (e2 @ e3 @ e4) @ e5"
    using e2(1) e3(1) e4(1) e5(1) by simp
  moreover have "ir_codes (e2 @ e3 @ e4) = []"
    using e2(2) e3(2) e4(2) by (simp add: ir_codes_append)
  ultimately show ?thesis using e5(2,3) by blast
qed

text \<open>
  Two single-press frames, one per pass: each acknowledgement is followed by the code of its
  press.
\<close>

lemma two_presses_trace:
  "trace (run two_presses boot) =
     [UdpSend (1, 2) [0xA5, 0x01, 0x7F, 0x2A, 0x00, 0x01, 0x00], IrSendRC5 0x838 12,
      UdpSend (1, 2) [0xA5, 0x01, 0x7F, 0x2B, 0x00, 0x01, 0x00], IrSendRC5 0x0CA 12]"
  by code_simp

text \<open>
  Claim C3. The dispatcher only enqueues: what was queued before stays at the front of the
  queue and no code is handed to the transmitter. For a newly dispatched frame the
  acknowledgement is the event that follows the dispatcher's own, and the queue at that
  moment is the queue the dispatcher returned, so every action derived from the command is
  still waiting. The whole intake of a pass sends no code and does not touch the pending
  delay. In every pass of the main loop the events split into a first part without any
  code, which holds every datagram sent in the pass, and a last part of at most one event,
  the executor's: each acknowledgement is sent before the executor dequeues.
\<close>

theorem ack_before_execution:
  assumes "q_wf s"
  shows "(6 + unat plen = 6 + min (length payload) 122 \<and> \<not> (lastIdValid s \<and> ident = lastId s) \<longrightarrow>
            trace (processDatagram now (frame ep cmd ident plen payload) s) =
              trace (snd (enqueueCommand now cmd (take 122 payload) plen s)) @
                [UdpSend ep (ackBytes ident
                   (if fst (enqueueCommand now cmd (take 122 payload) plen s) then 1 else 0))] \<and>
            queue_contents (processDatagram now (frame ep cmd ident plen payload) s) =
              queue_contents (snd (enqueueCommand now cmd (take 122 payload) plen s))) \<and>
         prefix (queue_contents s) (queue_contents (snd (enqueueCommand now cmd payload plen s))) \<and>
         ir_codes (trace (snd (enqueueCommand now cmd payload plen s))) = ir_codes (trace s) \<and>
         prefix (queue_contents s) (queue_contents (processUdp now ds s)) \<and>
         ir_codes (trace (processUdp now ds s)) = ir_codes (trace s) \<and>
         delayUntilMs (processUdp now ds s) = delayUntilMs s \<and>
         (\<exists>pre post. trace (loop i s) = trace s @ pre @ post \<and> ir_codes pre = [] \<and>
                      sent post = [] \<and> length post \<le> 1)"
proof (intro conjI impI)
  assume a: "6 + unat plen = 6 + min (length payload) 122 \<and> \<not> (lastIdValid s \<and> ident = lastId s)"
  then have f: "6 + unat plen = 6 + min (length payload) 122"
    and n: "\<not> (lastIdValid s \<and> ident = lastId s)" by blast+
  show "trace (processDatagram now (frame ep cmd ident plen payload) s) =
              trace (snd (enqueueCommand now cmd (take 122 payload) plen s)) @
                [UdpSend ep (ackBytes ident
                   (if fst (enqueueCommand now cmd (take 122 payload) plen s) then 1 else 0))]"
    unfolding intake_dispatch [OF f n] by (simp add: sendAck_def burst_keeps)
  show "queue_contents (processDatagram now (frame ep cmd ident plen payload) s) =
              queue_contents (snd (enqueueCommand now cmd (take 122 payload) plen s))"
    unfolding intake_dispatch [OF f n] by (simp add: queue_view_upd)
next
  show "prefix (queue_contents s) (queue_contents (snd (enqueueCommand now cmd payload plen s)))"
    using enqueueCommand_prefix [OF assms] by blast
  show "ir_codes (trace (snd (enqueueCommand now cmd payload plen s))) = ir_codes (trace s)"
    by (rule enqueueCommand_ir)
  show "prefix (queue_contents s) (queue_contents (processUdp now ds s))"
    using processUdp_prefix [OF assms] by blast
  show "ir_codes (trace (processUdp now ds s)) = ir_codes (trace s)"
    by (rule processUdp_ir)
  show "delayUntilMs (processUdp now ds s) = delayUntilMs s"
    by (rule processUdp_keeps)
  show "\<exists>pre post. trace (loop i s) = trace s @ pre @ post \<and> ir_codes pre = [] \<and>
                      sent post = [] \<and> length post \<le> 1"
    by (rule loop_trace)
qed

theorem ack_before_execution_witness:
  "q_wf boot \<and> 6 + unat (0 :: u8) = 6 + min (length ([] :: u8 list)) 122 \<and>
   \<not> (lastIdValid boot \<and> (0x2A :: u16) = lastId boot) \<and>
   trace (processDatagram 0 (frame (1, 2) 0x05 0x2A 0 []) boot) =
     trace (snd (enqueueCommand 0 0x05 (take 122 []) 0 boot)) @
       [UdpSend (1, 2) (ackBytes 0x2A (if fst (enqueueCommand 0 0x05 (take 122 []) 0 boot) then 1 else 0))] \<and>
   queue_contents (processDatagram 0 (frame (1, 2) 0x05 0x2A 0 []) boot) =
     queue_contents (snd (enqueueCommand 0 0x05 (take 122 []) 0 boot)) \<and>
   prefix (queue_contents boot) (queue_contents (processUdp 0 [example_frame] boot))"
proof -
  have h: "q_wf boot" by code_simp
  have f: "6 + unat (0 :: u8) = 6 + min (length ([] :: u8 list)) 122 \<and>
           \<not> (lastIdValid boot \<and> (0x2A :: u16) = lastId boot)" by code_simp
  from ack_before_execution [OF h, where plen = 0 and payload = "[]" and ident = "0x2A"
      and now = 0 and ep = "(1, 2)" and cmd = "0x05" and ds = "[example_frame]"] h f
  show ?thesis by blast
qed

section \<open>Siren engine\<close>

lemma upt5: "[0..<5] = [0, 1, 2, 3, 4]"
  by (simp add: upt_rec)

lemma siren_demo_start:
  assumes "\<not> otaEnabled s"
  shows "enqueueCommand t0 CMD_SIREN siren_payload 9 s =
           (True, s\<lparr>sirenCount := 2, sirenOnMs := [200, 300, 0, 0, 0],
                     sirenOffMs := [100, 150, 0, 0, 0], sirenIndex := 0, sirenPhaseOn := True,
                     sirenActive := True, pinSiren := True, sirenNextMs := t0 + 200\<rparr>)"
  by (simp add: siren_eq [OF assms] siren_payload_def sirenStart_def sirenWrite_def Let_def
      SIREN_ACTIVE_HIGH_def upt5 readU16LE_def)

lemma siren_run_append: "siren_run (xs @ ys) s = siren_run ys (siren_run xs s)"
  by (simp add: siren_run_def)

lemma siren_run_Cons: "siren_run (x # xs) s = siren_run xs (sirenTick x s)"
  by (simp add: siren_run_def)

lemma siren_wait:
  "sirenActive s \<Longrightarrow> \<forall>t \<in> set ts. t < sirenNextMs s \<Longrightarrow> siren_run ts s = s"
  by (induction ts) (simp_all add: siren_run_def sirenTick_def)

lemma siren_idle: "\<not> sirenActive s \<Longrightarrow> siren_run ts s = s"
  by (induction ts) (simp_all add: siren_run_def sirenTick_def)

lemma tick_on_to_off:
  assumes "sirenActive s" "sirenPhaseOn s" "sirenNextMs s \<le> now"
  shows "sirenTick now s =
           s\<lparr>pinSiren := False, sirenPhaseOn := False,
             sirenNextMs := now + ucast (sirenOffMs s ! sirenIndex s)\<rparr>"
  using assms by (simp add: sirenTick_def sirenWrite_def SIREN_ACTIVE_HIGH_def not_less)

lemma tick_off_to_on:
  assumes "sirenActive s" "\<not> sirenPhaseOn s" "sirenNextMs s \<le> now"
    "sirenIndex s + 1 < sirenCount s"
  shows "sirenTick now s =
           s\<lparr>sirenIndex := sirenIndex s + 1, sirenPhaseOn := True, pinSiren := True,
             sirenNextMs := now + ucast (sirenOnMs s ! (sirenIndex s + 1))\<rparr>"
  using assms by (simp add: sirenTick_def sirenWrite_def SIREN_ACTIVE_HIGH_def not_less Let_def)

lemma tick_stop:
  assumes "sirenActive s" "\<not> sirenPhaseOn s" "sirenNextMs s \<le> now"
    "sirenCount s \<le> sirenIndex s + 1"
  shows "sirenTick now s =
           s\<lparr>sirenActive := False, sirenCount := 0, sirenIndex := 0, sirenPhaseOn := False,
             sirenNextMs := 0, pinSiren := False\<rparr>"
  using assms
  by (simp add: sirenTick_def sirenStop_def sirenWrite_def SIREN_ACTIVE_HIGH_def not_less)

text \<open>Clock readings \<open>t0 + k\<close> compare like the elapsed times as long as the clock does not wrap.\<close>

lemma unat_off:
  assumes "unat (t0 :: u32) + k < 2 ^ 32"
  shows "unat (t0 + of_nat k) = unat t0 + k"
proof -
  have "k < 2 ^ 32" using assms by simp
  then have "unat (of_nat k :: u32) = k" by (simp add: unat_of_nat)
  then show ?thesis using assms by (simp add: unat_word_ariths)
qed

lemma off_less:
  assumes "unat (t0 :: u32) + b < 2 ^ 32" "a < b"
  shows "t0 + of_nat a < t0 + of_nat b"
  using assms by (simp add: word_less_nat_alt unat_off)

lemma off_le:
  assumes "unat (t0 :: u32) + b < 2 ^ 32" "a \<le> b"
  shows "t0 + of_nat a \<le> t0 + of_nat b"
  using assms by (simp add: word_le_nat_alt unat_off)

lemma siren_wait_off:
  assumes "sirenActive X" "sirenNextMs X = t0 + of_nat D" "unat t0 + D < 2 ^ 32"
    "\<forall>k \<in> set ks. k < D"
  shows "siren_run (map (\<lambda>k. t0 + of_nat k) ks) X = X"
proof (rule siren_wait [OF assms(1)])
  show "\<forall>t \<in> set (map (\<lambda>k. t0 + of_nat k) ks). t < sirenNextMs X"
    using assms(3,4) by (auto simp: assms(2) intro: off_less)
qed

lemma siren_restart:
  assumes "\<not> otaEnabled s" "p \<noteq> []" "1 \<le> p ! 0" "p ! 0 \<le> 3" "1 + p ! 0 * 4 \<le> plen"
  shows "enqueueCommand now CMD_SIREN p plen s =
           (True, s\<lparr>sirenCount := unat (p ! 0),
                     sirenOnMs := map (\<lambda>i. if i < unat (p ! 0)
                                            then readU16LE (p ! (1 + 4 * i)) (p ! (2 + 4 * i)) else 0)
                                      [0..<5],
                     sirenOffMs := map (\<lambda>i. if i < unat (p ! 0)
                                             then readU16LE (p ! (3 + 4 * i)) (p ! (4 + 4 * i)) else 0)
                                       [0..<5],
                     sirenIndex := 0, sirenPhaseOn := True, sirenActive := True, pinSiren := True,
                     sirenNextMs := now + ucast (readU16LE (p ! 1) (p ! 2))\<rparr>)"
proof -
  have c: "p ! 0 = 1 \<or> p ! 0 = 2 \<or> p ! 0 = 3" using assms(3,4) by (rule count_cases)
  have n1: "\<not> plen < 1" using assms(5) c by (elim disjE; simp; unat_arith)
  have n2: "\<not> (p ! 0 < 1 \<or> p ! 0 > 3)" using c by (elim disjE; simp)
  have n3: "\<not> plen < 1 + p ! 0 * 4" using assms(5) by (simp add: not_less)
  have u: "0 < unat (p ! 0)" using c by (elim disjE; simp)
  show ?thesis
    unfolding siren_eq [OF assms(1)] using n1 n2 n3 u
    by (simp add: sirenStart_def sirenWrite_def Let_def SIREN_ACTIVE_HIGH_def upt5)
qed

text \<open>
  The example train, for ticks at any elapsed times: the waiting ticks of each phase fall
  before its deadline, the tick that ends it at or after the deadline, and each deadline is
  counted from the tick that started the phase.
\<close>

lemma siren_train:
  assumes gate: "\<not> otaEnabled s"
    and nowrap: "unat t0 + k4 < 2 ^ 32"
    and w1: "\<forall>k \<in> set ks1. k < 200" and d1: "200 \<le> k1"
    and w2: "\<forall>k \<in> set ks2. k < k1 + 100" and d2: "k1 + 100 \<le> k2"
    and w3: "\<forall>k \<in> set ks3. k < k2 + 300" and d3: "k2 + 300 \<le> k3"
    and w4: "\<forall>k \<in> set ks4. k < k3 + 150" and d4: "k3 + 150 \<le> k4"
  shows "pinSiren (siren_after t0 s ks1)"
    "\<not> pinSiren (siren_after t0 s (ks1 @ [k1] @ ks2))"
    "pinSiren (siren_after t0 s (ks1 @ [k1] @ ks2 @ [k2] @ ks3))"
    "\<not> pinSiren (siren_after t0 s (ks1 @ [k1] @ ks2 @ [k2] @ ks3 @ [k3] @ ks4))"
    "\<not> pinSiren (siren_after t0 s (ks1 @ [k1] @ ks2 @ [k2] @ ks3 @ [k3] @ ks4 @ [k4] @ ks5))"
    "\<not> sirenActive (siren_after t0 s (ks1 @ [k1] @ ks2 @ [k2] @ ks3 @ [k3] @ ks4 @ [k4] @ ks5))"
proof -
  let ?f = "\<lambda>k. t0 + of_nat k"
  define S0 where "S0 = s\<lparr>sirenCount := 2, sirenOnMs := [200, 300, 0, 0, 0],
                     sirenOffMs := [100, 150, 0, 0, 0], sirenIndex := 0, sirenPhaseOn := True,
                     sirenActive := True, pinSiren := True, sirenNextMs := t0 + of_nat 200\<rparr>"
  define S1 where "S1 = S0\<lparr>pinSiren := False, sirenPhaseOn := False,
                            sirenNextMs := t0 + of_nat (k1 + 100)\<rparr>"
  define S2 where "S2 = S1\<lparr>sirenIndex := 1, sirenPhaseOn := True, pinSiren := True,
                            sirenNextMs := t0 + of_nat (k2 + 300)\<rparr>"
  define S3 where "S3 = S2\<lparr>pinSiren := False, sirenPhaseOn := False,
                            sirenNextMs := t0 + of_nat (k3 + 150)\<rparr>"
  define S4 where "S4 = S3\<lparr>sirenActive := False, sirenCount := 0, sirenIndex := 0,
                            sirenPhaseOn := False, sirenNextMs := 0, pinSiren := False\<rparr>"
  have b: "unat t0 + 200 < 2 ^ 32" "unat t0 + k1 < 2 ^ 32" "unat t0 + (k1 + 100) < 2 ^ 32"
    "unat t0 + k2 < 2 ^ 32" "unat t0 + (k2 + 300) < 2 ^ 32" "unat t0 + k3 < 2 ^ 32"
    "unat t0 + (k3 + 150) < 2 ^ 32"
    using nowrap d1 d2 d3 d4 by simp_all
  have start: "snd (enqueueCommand t0 CMD_SIREN siren_payload 9 s) = S0"
    by (simp add: siren_demo_start [OF gate] S0_def)
  have after: "siren_after t0 s ks = siren_run (map ?f ks) S0" for ks
    by (simp add: siren_after_def start)
  have r0: "siren_run (map ?f ks1) S0 = S0"
    by (rule siren_wait_off [where D = 200, OF _ _ b(1) w1]) (simp_all add: S0_def)
  have t1: "sirenTick (?f k1) S0 = S1"
  proof -
    have "sirenNextMs S0 \<le> ?f k1" unfolding S0_def using off_le [OF b(2) d1] by simp
    then show ?thesis
      by (subst tick_on_to_off) (simp_all add: S0_def S1_def)
  qed
  have r1: "siren_run (map ?f ks2) S1 = S1"
    by (rule siren_wait_off [where D = "k1 + 100", OF _ _ b(3) w2]) (simp_all add: S1_def S0_def)
  have t2: "sirenTick (?f k2) S1 = S2"
  proof -
    have "sirenNextMs S1 \<le> ?f k2" unfolding S1_def using off_le [OF b(4) d2] by simp
    then show ?thesis
      by (subst tick_off_to_on) (simp_all add: S0_def S1_def S2_def)
  qed
  have r2: "siren_run (map ?f ks3) S2 = S2"
    by (rule siren_wait_off [where D = "k2 + 300", OF _ _ b(5) w3]) (simp_all add: S2_def S1_def S0_def)
  have t3: "sirenTick (?f k3) S2 = S3"
  proof -
    have "sirenNextMs S2 \<le> ?f k3" unfolding S2_def using off_le [OF b(6) d3] by simp
    then show ?thesis
      by (subst tick_on_to_off) (simp_all add: S0_def S1_def S2_def S3_def)
  qed
  have r3: "siren_run (map ?f ks4) S3 = S3"
    by (rule siren_wait_off [where D = "k3 + 150", OF _ _ b(7) w4]) (simp_all add: S3_def S2_def S1_def S0_def)
  have t4: "sirenTick (?f k4) S3 = S4"
  proof -
    have "sirenNextMs S3 \<le> ?f k4" unfolding S3_def using off_le [OF nowrap d4] by simp
    then show ?thesis
      by (subst tick_stop) (simp_all add: S0_def S1_def S2_def S3_def S4_def)
  qed
  have r4: "siren_run (map ?f ks5) S4 = S4"
    by (rule siren_idle) (simp add: S4_def)
  show "pinSiren (siren_after t0 s ks1)"
    by (simp add: after r0) (simp add: S0_def)
  show "\<not> pinSiren (siren_after t0 s (ks1 @ [k1] @ ks2))"
    by (simp add: after siren_run_append siren_run_Cons r0 t1 r1) (simp add: S1_def)
  show "pinSiren (siren_after t0 s (ks1 @ [k1] @ ks2 @ [k2] @ ks3))"
    by (simp add: after siren_run_append siren_run_Cons r0 t1 r1 t2 r2) (simp add: S2_def)
  show "\<not> pinSiren (siren_after t0 s (ks1 @ [k1] @ ks2 @ [k2] @ ks3 @ [k3] @ ks4))"
    by (simp add: after siren_run_append siren_run_Cons r0 t1 r1 t2 r2 t3 r3) (simp add: S3_def)
  show "\<not> pinSiren (siren_after t0 s (ks1 @ [k1] @ ks2 @ [k2] @ ks3 @ [k3] @ ks4 @ [k4] @ ks5))"
    by (simp add: after siren_run_append siren_run_Cons r0 t1 r1 t2 r2 t3 r3 t4 r4) (simp add: S4_def)
  show "\<not> sirenActive (siren_after t0 s (ks1 @ [k1] @ ks2 @ [k2] @ ks3 @ [k3] @ ks4 @ [k4] @ ks5))"
    by (simp add: after siren_run_append siren_run_Cons r0 t1 r1 t2 r2 t3 r3 t4 r4) (simp add: S4_def)
qed

text \<open>
  Claim C8, as amended. With the gate closed and provided the 32-bit millisecond clock does
  not wrap before the train ends, the example command (count 2, on 200 and 300 ms, off 100 and
  150 ms) drives the output high until the first tick at or after 200 ms, low until the first
  tick at or after 100 ms later, high until the first tick at or after 300 ms later, low until
  the first tick at or after 150 ms later, at which tick the engine stops with the output
  low, where it stays whatever the later ticks. With the gate closed, every valid siren
  command (count 1 to 3, at least \<open>1 + 4 * count\<close> payload bytes declared) is accepted and
  overwrites the whole engine state, whatever train was in progress: phase 0, phase ON,
  output high, the new durations, deadline now plus the first on-duration.
\<close>

theorem siren_pulse_train:
  assumes gate: "\<not> otaEnabled s"
    and nowrap: "unat t0 + k4 < 2 ^ 32"
    and w1: "\<forall>k \<in> set ks1. k < 200" and d1: "200 \<le> k1"
    and w2: "\<forall>k \<in> set ks2. k < k1 + 100" and d2: "k1 + 100 \<le> k2"
    and w3: "\<forall>k \<in> set ks3. k < k2 + 300" and d3: "k2 + 300 \<le> k3"
    and w4: "\<forall>k \<in> set ks4. k < k3 + 150" and d4: "k3 + 150 \<le> k4"
  shows "fst (enqueueCommand t0 CMD_SIREN siren_payload 9 s) \<and>
         pinSiren (siren_after t0 s ks1) \<and>
         \<not> pinSiren (siren_after t0 s (ks1 @ [k1] @ ks2)) \<and>
         pinSiren (siren_after t0 s (ks1 @ [k1] @ ks2 @ [k2] @ ks3)) \<and>
         \<not> pinSiren (siren_after t0 s (ks1 @ [k1] @ ks2 @ [k2] @ ks3 @ [k3] @ ks4)) \<and>
         \<not> pinSiren (siren_after t0 s (ks1 @ [k1] @ ks2 @ [k2] @ ks3 @ [k3] @ ks4 @ [k4] @ ks5)) \<and>
         \<not> sirenActive (siren_after t0 s (ks1 @ [k1] @ ks2 @ [k2] @ ks3 @ [k3] @ ks4 @ [k4] @ ks5)) \<and>
         (\<not> otaEnabled s' \<and> p \<noteq> [] \<and> 1 \<le> p ! 0 \<and> p ! 0 \<le> 3 \<and> 1 + p ! 0 * 4 \<le> plen \<longrightarrow>
            enqueueCommand now CMD_SIREN p plen s' =
              (True, s'\<lparr>sirenCount := unat (p ! 0),
                     sirenOnMs := map (\<lambda>i. if i < unat (p ! 0)
                                            then readU16LE (p ! (1 + 4 * i)) (p ! (2 + 4 * i)) else 0)
                                      [0..<5],
                     sirenOffMs := map (\<lambda>i. if i < unat (p ! 0)
                                             then readU16LE (p ! (3 + 4 * i)) (p ! (4 + 4 * i)) else 0)
                                       [0..<5],
                     sirenIndex := 0, sirenPhaseOn := True, sirenActive := True, pinSiren := True,
                     sirenNextMs := now + ucast (readU16LE (p ! 1) (p ! 2))\<rparr>))"
proof -
  have "fst (enqueueCommand t0 CMD_SIREN siren_payload 9 s)"
    by (simp add: siren_demo_start [OF gate])
  moreover note siren_train [OF assms]
  moreover have "\<not> otaEnabled s' \<and> p \<noteq> [] \<and> 1 \<le> p ! 0 \<and> p ! 0 \<le> 3 \<and> 1 + p ! 0 * 4 \<le> plen \<longrightarrow>
            enqueueCommand now CMD_SIREN p plen s' =
              (True, s'\<lparr>sirenCount := unat (p ! 0),
                     sirenOnMs := map (\<lambda>i. if i < unat (p ! 0)
                                            then readU16LE (p ! (1 + 4 * i)) (p ! (2 + 4 * i)) else 0)
                                      [0..<5],
                     sirenOffMs := map (\<lambda>i. if i < unat (p ! 0)
                                             then readU16LE (p ! (3 + 4 * i)) (p ! (4 + 4 * i)) else 0)
                                       [0..<5],
                     sirenIndex := 0, sirenPhaseOn := True, sirenActive := True, pinSiren := True,
                     sirenNextMs := now + ucast (readU16LE (p ! 1) (p ! 2))\<rparr>)"
    using siren_restart [of s' p plen now] by blast
  ultimately show ?thesis by blast
qed

theorem siren_pulse_train_witness:
  "\<not> otaEnabled boot \<and> unat (1000 :: u32) + 751 < 2 ^ 32 \<and>
   (200 :: nat) \<le> 200 \<and> (200 :: nat) + 100 \<le> 300 \<and> (300 :: nat) + 300 \<le> 601 \<and>
   (601 :: nat) + 150 \<le> 751 \<and>
   pinSiren (siren_after 1000 boot [0, 100, 199]) \<and>
   \<not> pinSiren (siren_after 1000 boot ([0, 100, 199] @ [200] @ [250])) \<and>
   pinSiren (siren_after 1000 boot ([0, 100, 199] @ [200] @ [250] @ [300] @ [450, 599])) \<and>
   \<not> pinSiren (siren_after 1000 boot ([0, 100, 199] @ [200] @ [250] @ [300] @ [450, 599] @ [601] @ [700])) \<and>
   \<not> sirenActive (siren_after 1000 boot
        ([0, 100, 199] @ [200] @ [250] @ [300] @ [450, 599] @ [601] @ [700] @ [751] @ [800, 5000])) \<and>
   \<not> otaEnabled siren_mid \<and> siren_payload \<noteq> [] \<and> 1 \<le> siren_payload ! 0 \<and> siren_payload ! 0 \<le> 3 \<and>
   1 + siren_payload ! 0 * 4 \<le> 9 \<and>
   fst (enqueueCommand 1250 CMD_SIREN siren_payload 9 siren_mid)"
proof -
  have g: "\<not> otaEnabled boot" by code_simp
  have n: "unat (1000 :: u32) + 751 < 2 ^ 32" by simp
  have w1: "\<forall>k \<in> set [0, 100, 199 :: nat]. k < 200" by simp
  have d1: "(200 :: nat) \<le> 200" by simp
  have w2: "\<forall>k \<in> set [250 :: nat]. k < 200 + 100" by simp
  have d2: "(200 :: nat) + 100 \<le> 300" by simp
  have w3: "\<forall>k \<in> set [450, 599 :: nat]. k < 300 + 300" by simp
  have d3: "(300 :: nat) + 300 \<le> 601" by simp
  have w4: "\<forall>k \<in> set [700 :: nat]. k < 601 + 150" by simp
  have d4: "(601 :: nat) + 150 \<le> 751" by simp
  have r: "\<not> otaEnabled siren_mid \<and> siren_payload \<noteq> [] \<and> 1 \<le> siren_payload ! 0 \<and>
           siren_payload ! 0 \<le> 3 \<and> 1 + siren_payload ! 0 * 4 \<le> 9"
    by code_simp
  have t: "enqueueCommand 1250 CMD_SIREN siren_payload 9 siren_mid = (True, x) \<Longrightarrow>
           fst (enqueueCommand 1250 CMD_SIREN siren_payload 9 siren_mid)" for x by simp
  from siren_pulse_train [OF g n w1 d1 w2 d2 w3 d3 w4 d4, where ?ks5.0 = "[800, 5000]"
      and s' = siren_mid and p = siren_payload and plen = 9 and now = 1250]
    g n w1 d1 w2 d2 w3 d3 w4 d4 r t
  show ?thesis by blast
qed

text \<open>
  The claim as written fails when the clock wraps: dispatched 200 ms before the 32-bit
  millisecond counter overflows, the command stores the deadline 0, and the tick one
  millisecond later already ends the first on phase.
\<close>

theorem siren_short_pulse_at_clock_wrap:
  "fst (enqueueCommand 0xFFFFFF38 CMD_SIREN siren_payload 9 boot) \<and>
   pinSiren (snd (enqueueCommand 0xFFFFFF38 CMD_SIREN siren_payload 9 boot)) \<and>
   sirenNextMs (snd (enqueueCommand 0xFFFFFF38 CMD_SIREN siren_payload 9 boot)) = 0 \<and>
   \<not> pinSiren (siren_after 0xFFFFFF38 boot [1])"
  by code_simp

section \<open>The same frame received twice\<close>









section \<open>The gate over a pass of the main loop\<close>

text \<open>Only the maintenance-entry command touches the gate.\<close>

lemma enqueueCommand_cases_other:
  assumes "cmd \<noteq> CMD_OTA_MODE"
  shows "enqueueCommand now cmd payload plen s = (False, s) \<or>
   (\<exists>a. enqueueCommand now cmd payload plen s = qPush a s) \<or>
   enqueueCommand now cmd payload plen s = (True, queueMacroModeSwitch s) \<or>
   enqueueCommand now cmd payload plen s = (True, queueMacroResetScoreboard s) \<or>
   (\<exists>c on off. enqueueCommand now cmd payload plen s = (True, sirenStart now c on off s))"
  using assms unfolding enqueueCommand_def Let_def by (simp; blast)

lemma ring_only_gate:
  assumes "t\<lparr>q := x, qTail := y, qCount := z\<rparr> = s\<lparr>q := x, qTail := y, qCount := z\<rparr>"
  shows "otaEnabled t = otaEnabled s" "otaUntilMs t = otaUntilMs s"
proof -
  show "otaEnabled t = otaEnabled s" using arg_cong [OF assms, of otaEnabled] by simp
  show "otaUntilMs t = otaUntilMs s" using arg_cong [OF assms, of otaUntilMs] by simp
qed

lemma enqueueCommand_gate_other:
  assumes "cmd \<noteq> CMD_OTA_MODE"
  shows "otaEnabled (snd (enqueueCommand now cmd payload plen s)) = otaEnabled s \<and>
         otaUntilMs (snd (enqueueCommand now cmd payload plen s)) = otaUntilMs s"
  using enqueueCommand_cases_other [OF assms, of now payload plen s]
proof (elim disjE exE)
  fix a assume "enqueueCommand now cmd payload plen s = qPush a s"
  then show ?thesis by (simp add: ring_only_gate [OF qPush_rest])
next
  fix c on off assume "enqueueCommand now cmd payload plen s = (True, sirenStart now c on off s)"
  then show ?thesis by (simp add: sirenStart_def sirenWrite_def Let_def)
qed (simp_all add: ring_only_gate [OF queueMacroModeSwitch_rest]
       ring_only_gate [OF queueMacroResetScoreboard_rest])

lemma mode_entry_frame_frame:
  "mode_entry_frame (frame ep cmd i plen payload) =
     (payload = [] \<and> cmd = CMD_OTA_MODE \<and> plen = 0)"
  by (auto simp: mode_entry_frame_def frame_def writeU16LE_def)

lemma processDatagram_gate:
  assumes "\<not> mode_entry_frame d"
  shows "otaEnabled (processDatagram now d s) = otaEnabled s \<and>
         otaUntilMs (processDatagram now d s) = otaUntilMs s"
proof -
  from frame_cases [of d] show ?thesis
  proof
    assume "\<forall>now s. processDatagram now d s = s"
    then show ?thesis by simp
  next
    assume "\<exists>ep cmd ident plen payload. d = frame ep cmd ident plen payload"
    then obtain ep cmd i plen payload where d: "d = frame ep cmd i plen payload" by blast
    have nm: "\<not> (payload = [] \<and> cmd = CMD_OTA_MODE \<and> plen = 0)"
      using assms unfolding d mode_entry_frame_frame .
    let ?r = "enqueueCommand now cmd (take 122 payload) plen s"
    have r: "unat plen = min (length payload) 122 \<Longrightarrow>
             otaEnabled (snd ?r) = otaEnabled s \<and> otaUntilMs (snd ?r) = otaUntilMs s"
    proof (cases "cmd = CMD_OTA_MODE")
      case False
      then show ?thesis by (rule enqueueCommand_gate_other)
    next
      case True
      assume c: "unat plen = min (length payload) 122"
      have "plen \<noteq> 0"
      proof
        assume z: "plen = 0"
        then have "min (length payload) 122 = 0" using c by simp
        then have "payload = []" by (cases payload) simp_all
        then show False using nm True z by simp
      qed
      then show ?thesis unfolding True by (simp add: ota_eq)
    qed
    show ?thesis
      unfolding d processDatagram_frame Let_def
      using r by (simp add: sendAck_def statusLedActivityBurst_def statusLedWrite_def)
  qed
qed

lemma processUdp_gate:
  "\<forall>d \<in> set ds. \<not> mode_entry_frame d \<Longrightarrow>
     otaEnabled (processUdp now ds s) = otaEnabled s \<and>
     otaUntilMs (processUdp now ds s) = otaUntilMs s"
  by (induction ds arbitrary: s) (simp_all add: processDatagram_gate)

lemma engines_keep_gate:
  "otaEnabled (statusLedTick now wifi s) = otaEnabled s"
  "otaUntilMs (statusLedTick now wifi s) = otaUntilMs s"
  "otaEnabled (wifiTick now wifi s) = otaEnabled s"
  "otaUntilMs (wifiTick now wifi s) = otaUntilMs s"
  "otaEnabled (sirenTick now s) = otaEnabled s"
  "otaEnabled (actionTick now s) = otaEnabled s"
  by (simp_all add: statusLedTick_def statusLedSetBase_def statusLedWrite_def Let_def wifiTick_def
      sirenTick_def sirenStop_def sirenWrite_def actionTick_def qPop_def sendRc5Press_def
      statusLedActivityBurst_def split: ActionType.split)

text \<open>
  Claim C4, as amended. From every state in which the gate is enabled and the clock has
  reached or passed the stored deadline, the next pass of the main loop leaves the gate
  closed, provided the link is connected during the pass and no well-formed
  maintenance-entry frame (six bytes: magic, version, \<open>0x70\<close>, an id, length 0) is among
  the datagrams the pass receives.
\<close>

theorem gate_closes_next_pass:
  assumes "otaEnabled s" "otaUntilMs s \<le> t_now i" "t_wifi i"
    and "\<forall>d \<in> set (t_inbox i). \<not> mode_entry_frame d"
  shows "\<not> otaEnabled (loop i s)"
proof -
  let ?s2 = "wifiTick (t_now i) (t_wifi i) (statusLedTick (t_now i) (t_wifi i) s)"
  let ?s3 = "processUdp (t_now i) (t_inbox i) ?s2"
  have "otaEnabled ?s3" "otaUntilMs ?s3 \<le> t_now i"
    using assms(1,2) processUdp_gate [OF assms(4), of "t_now i" ?s2]
    by (simp_all add: engines_keep_gate)
  then have "otaTick (t_now i) True ?s3 = ?s3\<lparr>otaEnabled := False\<rparr>"
    by (rule otaTick_at_deadline)
  then show ?thesis
    using assms(3) by (simp add: loop_def Let_def engines_keep_gate)
qed

theorem gate_closes_next_pass_witness:
  "otaEnabled gate_demo \<and> otaUntilMs gate_demo \<le> t_now link_up_tick \<and> t_wifi link_up_tick \<and>
   t_inbox link_up_tick = [example_frame] \<and> \<not> mode_entry_frame example_frame \<and>
   \<not> otaEnabled (loop link_up_tick gate_demo)"
proof -
  have h1: "otaEnabled gate_demo" by code_simp
  have h2: "otaUntilMs gate_demo \<le> t_now link_up_tick" by code_simp
  have h3: "t_wifi link_up_tick" by code_simp
  have h4: "t_inbox link_up_tick = [example_frame]" by code_simp
  have h5: "\<not> mode_entry_frame example_frame" by code_simp
  have h6: "\<forall>d \<in> set (t_inbox link_up_tick). \<not> mode_entry_frame d" using h4 h5 by simp
  from gate_closes_next_pass [OF h1 h2 h3 h6] h1 h2 h3 h4 h5 show ?thesis by blast
qed

text \<open>
  The claim as written fails in two ways. After a maintenance command at clock 1000 the
  deadline is 181000. A pass of the main loop at clock 200000 with the link down leaves the
  gate open, since the gate's tick returns before it looks at the deadline. A pass at clock
  200000 with the link up that receives a maintenance-entry frame leaves the gate open as
  well: the intake runs before the gate's tick and re-arms the window to 380000.
\<close>

theorem gate_stays_open_link_down_or_rearmed:
  "otaEnabled gate_demo \<and>
   otaUntilMs gate_demo \<le> t_now link_down_tick \<and> otaEnabled (loop link_down_tick gate_demo) \<and>
   otaUntilMs gate_demo \<le> t_now rearm_tick \<and> t_wifi rearm_tick \<and>
   otaEnabled (loop rearm_tick gate_demo) \<and> otaUntilMs (loop rearm_tick gate_demo) = 380000"
  by code_simp

section \<open>Payloads at the level of frames\<close>

lemma valid_siren_len:
  assumes "(p :: u8 list) \<noteq> []" "1 \<le> p ! 0" "p ! 0 \<le> 3" "length p = 1 + 4 * unat (p ! 0)"
  shows "unat (1 + p ! 0 * 4) = length p"
proof -
  have "p ! 0 = 1 \<or> p ! 0 = 2 \<or> p ! 0 = 3" using assms(2,3) by (rule count_cases)
  then show ?thesis using assms(4) by (elim disjE; simp)
qed

lemma siren_frame_extra_ignored:
  assumes g: "\<not> otaEnabled s"
    and p: "p \<noteq> []" "1 \<le> p ! 0" "p ! 0 \<le> 3" "length p = 1 + 4 * unat (p ! 0)"
    and l: "length (p @ extra) = unat plen" "unat plen \<le> 122"
  shows "processDatagram now (frame ep CMD_SIREN ident plen (p @ extra)) s =
           processDatagram now (frame ep CMD_SIREN ident (1 + p ! 0 * 4) p) s"
    "\<not> (lastIdValid s \<and> ident = lastId s) \<Longrightarrow>
       lastAckStatus (processDatagram now (frame ep CMD_SIREN ident plen (p @ extra)) s) = 1"
proof -
  have u: "unat (1 + p ! 0 * 4) = length p" using p by (rule valid_siren_len)
  have le: "1 + p ! 0 * 4 \<le> plen" using u l(1) by (simp add: word_le_nat_alt)
  have s13: "length p \<le> 13"
  proof -
    have "unat (p ! 0) \<le> 3" using p(3) by (simp add: word_le_nat_alt)
    then show ?thesis using p(4) by simp
  qed
  have c1: "unat plen = min (length (p @ extra)) 122" using l by simp
  have c2: "unat (1 + p ! 0 * 4) = min (length p) 122" using u s13 by simp
  have t1: "take 122 (p @ extra) = p @ extra" using l by simp
  have t2: "take 122 p = p" using s13 by simp
  have e: "enqueueCommand now CMD_SIREN (p @ extra) plen s =
           enqueueCommand now CMD_SIREN p (1 + p ! 0 * 4) s"
    using siren_extra_ignored(2) [OF g p le] .
  have a: "fst (enqueueCommand now CMD_SIREN (p @ extra) plen s)"
    using siren_extra_ignored(1) [OF g p le] .
  show "processDatagram now (frame ep CMD_SIREN ident plen (p @ extra)) s =
           processDatagram now (frame ep CMD_SIREN ident (1 + p ! 0 * 4) p) s"
    unfolding processDatagram_frame t1 t2 e using c1 c2 by simp
  assume n: "\<not> (lastIdValid s \<and> ident = lastId s)"
  have f: "6 + unat plen = 6 + min (length (p @ extra)) 122" using c1 by simp
  show "lastAckStatus (processDatagram now (frame ep CMD_SIREN ident plen (p @ extra)) s) = 1"
    unfolding intake_dispatch [OF f n] t1 using a by (simp add: sendAck_def burst_keeps)
qed

lemma over_buffer_refused:
  assumes "length payload = unat plen" "122 < unat plen"
  shows "processDatagram now (frame ep cmd ident plen payload) s =
           s\<lparr>lastId := ident, lastIdValid := True, lastAckStatus := 0,
             trace := trace s @ [UdpSend ep (ackBytes ident 0)]\<rparr>"
  using assms by (simp add: processDatagram_frame sendAck_def)

text \<open>
  Claim C10, as amended. With the gate closed, the dispatcher's outcome for a single-press
  command, the mode-switch macro and the reset macro does not depend on the payload bytes
  or on the declared payload length, and a length-consistent frame of one of these commands
  that fits the 128-byte receive buffer (a payload of at most 122 bytes) is processed like
  the same frame without payload. A valid siren payload followed by further bytes is
  accepted and starts the engine as the payload without them does, at the dispatcher and,
  for a frame that fits the buffer, at the intake, where it is acknowledged with status 1.
  The maintenance-entry command is the one that refuses a payload for being non-empty. A
  length-consistent frame with more than 122 payload bytes is refused with status 0 whatever
  its command, and only the dedup record changes.
\<close>

theorem payload_ignored_within_buffer:
  assumes "\<not> otaEnabled s"
  shows "((0x01 \<le> cmd \<and> cmd \<le> 0x1B) \<or> cmd = CMD_MODE_SWITCH \<or> cmd = CMD_RESET_SCOREBOARD \<longrightarrow>
            enqueueCommand now cmd payload plen s = enqueueCommand now cmd [] 0 s \<and>
            (length payload = unat plen \<and> unat plen \<le> 122 \<longrightarrow>
               processDatagram now (frame ep cmd ident plen payload) s =
               processDatagram now (frame ep cmd ident 0 []) s)) \<and>
         (p \<noteq> [] \<and> 1 \<le> p ! 0 \<and> p ! 0 \<le> 3 \<and> length p = 1 + 4 * unat (p ! 0) \<and>
            1 + p ! 0 * 4 \<le> plen' \<longrightarrow>
            fst (enqueueCommand now CMD_SIREN (p @ extra) plen' s) \<and>
            enqueueCommand now CMD_SIREN (p @ extra) plen' s =
              enqueueCommand now CMD_SIREN p (1 + p ! 0 * 4) s) \<and>
         (p \<noteq> [] \<and> 1 \<le> p ! 0 \<and> p ! 0 \<le> 3 \<and> length p = 1 + 4 * unat (p ! 0) \<and>
            length (p @ extra) = unat plen' \<and> unat plen' \<le> 122 \<longrightarrow>
            processDatagram now (frame ep CMD_SIREN ident plen' (p @ extra)) s =
              processDatagram now (frame ep CMD_SIREN ident (1 + p ! 0 * 4) p) s \<and>
            (\<not> (lastIdValid s \<and> ident = lastId s) \<longrightarrow>
               lastAckStatus (processDatagram now (frame ep CMD_SIREN ident plen' (p @ extra)) s) = 1)) \<and>
         (plen \<noteq> 0 \<longrightarrow> enqueueCommand now CMD_OTA_MODE payload plen s = (False, s)) \<and>
         fst (enqueueCommand now CMD_OTA_MODE [] 0 s) \<and>
         (length payload = unat plen \<and> 122 < unat plen \<longrightarrow>
            processDatagram now (frame ep cmd ident plen payload) s =
              s\<lparr>lastId := ident, lastIdValid := True, lastAckStatus := 0,
                trace := trace s @ [UdpSend ep (ackBytes ident 0)]\<rparr>)"
proof (intro conjI impI)
  assume c: "(0x01 \<le> cmd \<and> cmd \<le> 0x1B) \<or> cmd = CMD_MODE_SWITCH \<or> cmd = CMD_RESET_SCOREBOARD"
  show e: "enqueueCommand now cmd payload plen s = enqueueCommand now cmd [] 0 s" for payload plen
    using c assms by (auto simp: press_eq mode_switch_eq reset_eq)
  assume "length payload = unat plen \<and> unat plen \<le> 122"
  then show "processDatagram now (frame ep cmd ident plen payload) s =
             processDatagram now (frame ep cmd ident 0 []) s"
    unfolding processDatagram_frame by (simp add: e [of payload plen])
next
  assume "p \<noteq> [] \<and> 1 \<le> p ! 0 \<and> p ! 0 \<le> 3 \<and> length p = 1 + 4 * unat (p ! 0) \<and> 1 + p ! 0 * 4 \<le> plen'"
  then show "fst (enqueueCommand now CMD_SIREN (p @ extra) plen' s)"
    using siren_extra_ignored(1) [OF assms] by blast
next
  assume "p \<noteq> [] \<and> 1 \<le> p ! 0 \<and> p ! 0 \<le> 3 \<and> length p = 1 + 4 * unat (p ! 0) \<and> 1 + p ! 0 * 4 \<le> plen'"
  then show "enqueueCommand now CMD_SIREN (p @ extra) plen' s =
              enqueueCommand now CMD_SIREN p (1 + p ! 0 * 4) s"
    using siren_extra_ignored(2) [OF assms] by blast
next
  assume "p \<noteq> [] \<and> 1 \<le> p ! 0 \<and> p ! 0 \<le> 3 \<and> length p = 1 + 4 * unat (p ! 0) \<and>
            length (p @ extra) = unat plen' \<and> unat plen' \<le> 122"
  then show "processDatagram now (frame ep CMD_SIREN ident plen' (p @ extra)) s =
              processDatagram now (frame ep CMD_SIREN ident (1 + p ! 0 * 4) p) s"
    using siren_frame_extra_ignored(1) [OF assms] by blast
next
  assume "p \<noteq> [] \<and> 1 \<le> p ! 0 \<and> p ! 0 \<le> 3 \<and> length p = 1 + 4 * unat (p ! 0) \<and>
            length (p @ extra) = unat plen' \<and> unat plen' \<le> 122"
    and "\<not> (lastIdValid s \<and> ident = lastId s)"
  then show "lastAckStatus (processDatagram now (frame ep CMD_SIREN ident plen' (p @ extra)) s) = 1"
    using siren_frame_extra_ignored(2) [OF assms] by blast
next
  assume "plen \<noteq> 0"
  then show "enqueueCommand now CMD_OTA_MODE payload plen s = (False, s)" by (simp add: ota_eq)
next
  show "fst (enqueueCommand now CMD_OTA_MODE [] 0 s)" by (simp add: ota_eq)
next
  assume "length payload = unat plen \<and> 122 < unat plen"
  then show "processDatagram now (frame ep cmd ident plen payload) s =
              s\<lparr>lastId := ident, lastIdValid := True, lastAckStatus := 0,
                trace := trace s @ [UdpSend ep (ackBytes ident 0)]\<rparr>"
    using over_buffer_refused by blast
qed

theorem payload_ignored_within_buffer_witness:
  "\<not> otaEnabled boot \<and>
   enqueueCommand 0 0x05 [1, 2, 3] 3 boot = enqueueCommand 0 0x05 [] 0 boot \<and>
   processDatagram 0 (frame (1, 2) 0x05 0x2A 3 [1, 2, 3]) boot =
     processDatagram 0 (frame (1, 2) 0x05 0x2A 0 []) boot \<and>
   fst (enqueueCommand 0 CMD_SIREN ([1, 200, 0, 100, 0] @ [9, 9]) 7 boot) \<and>
   enqueueCommand 0 CMD_SIREN ([1, 200, 0, 100, 0] @ [9, 9]) 7 boot =
     enqueueCommand 0 CMD_SIREN [1, 200, 0, 100, 0] (1 + [1, 200, 0, 100, 0] ! 0 * 4) boot \<and>
   processDatagram 0 (frame (1, 2) CMD_SIREN 0x2A 7 ([1, 200, 0, 100, 0] @ [9, 9])) boot =
     processDatagram 0 (frame (1, 2) CMD_SIREN 0x2A (1 + [1, 200, 0, 100, 0] ! 0 * 4) [1, 200, 0, 100, 0]) boot \<and>
   lastAckStatus (processDatagram 0 (frame (1, 2) CMD_SIREN 0x2A 7 ([1, 200, 0, 100, 0] @ [9, 9])) boot) = 1 \<and>
   enqueueCommand 0 CMD_OTA_MODE [1, 2, 3] 3 boot = (False, boot)"
proof -
  have g: "\<not> otaEnabled boot" by code_simp
  have c: "(0x01 :: u8) \<le> 0x05 \<and> (0x05 :: u8) \<le> 0x1B" by simp
  have f: "length [1, 2, 3 :: u8] = unat (3 :: u8) \<and> unat (3 :: u8) \<le> 122" by simp
  have p: "[1, 200, 0, 100, 0 :: u8] \<noteq> [] \<and> 1 \<le> [1, 200, 0, 100, 0 :: u8] ! 0 \<and>
           [1, 200, 0, 100, 0 :: u8] ! 0 \<le> 3 \<and>
           length [1, 200, 0, 100, 0 :: u8] = 1 + 4 * unat ([1, 200, 0, 100, 0 :: u8] ! 0) \<and>
           1 + [1, 200, 0, 100, 0 :: u8] ! 0 * 4 \<le> 7"
    by simp
  have l: "length ([1, 200, 0, 100, 0 :: u8] @ [9, 9]) = unat (7 :: u8) \<and> unat (7 :: u8) \<le> 122"
    by simp
  have d: "\<not> (lastIdValid boot \<and> (0x2A :: u16) = lastId boot)" by code_simp
  have n: "(3 :: u8) \<noteq> 0" by simp
  from payload_ignored_within_buffer [OF g, where cmd = "0x05" and now = 0 and payload = "[1, 2, 3]"
      and plen = 3 and ep = "(1, 2)" and ident = "0x2A" and p = "[1, 200, 0, 100, 0]"
      and plen' = 7 and extra = "[9, 9]"] g c f p l d n
  show ?thesis by blast
qed

text \<open>
  The claim as written fails for a frame longer than the receive buffer: a length-consistent
  press frame with 123 payload bytes is answered with status 0 and queues nothing, while the
  same command under the same id without payload is accepted and queues its press.
\<close>

theorem long_press_frame_refused:
  "\<not> otaEnabled boot \<and>
   length (d_data long_press_frame) = 6 + unat (d_data long_press_frame ! 5) \<and>
   d_data long_press_frame ! 2 = 0x05 \<and>
   queue_contents (processDatagram 0 long_press_frame boot) = [] \<and>
   lastAckStatus (processDatagram 0 long_press_frame boot) = 0 \<and>
   sent (trace (processDatagram 0 long_press_frame boot)) =
     [((1, 2), [0xA5, 0x01, 0x7F, 0x2B, 0x00, 0x00, 0x00])] \<and>
   queue_contents (processDatagram 0 (frame (1, 2) 0x05 0x2B 0 []) boot) =
     [\<lparr>atype = Press, arg = 4\<rparr>] \<and>
   lastAckStatus (processDatagram 0 (frame (1, 2) 0x05 0x2B 0 []) boot) = 1"
  by code_simp

end
